theory Spec2Isabelle
  imports Main "HOL-Library.AList"
begin

section \<open>The sensor platform of the Mosenergosbyt integration\<close>

text \<open>
  A shallow embedding of \<^verbatim>\<open>custom_components/mosenergosbyt/sensor.py\<close>: the update
  cycle \<^verbatim>\<open>_entity_updater\<close>, the two services registered by
  \<^verbatim>\<open>async_register_services\<close> and the tail of \<^verbatim>\<open>async_setup_entry\<close>.

  Python dictionaries are association lists in insertion order: \<open>d.get(k)\<close> is
  \<open>map_of d k\<close>, \<open>d[k] = v\<close> is \<open>AList.update k v d\<close> (an existing key keeps its
  place, a new one goes last) and \<open>del d[k]\<close> is \<open>AList.delete k d\<close>.
  Exceptions are values. The classes of the provider library and the configuration
  constants live in modules that are not part of this file; they are modelled from the
  way \<^verbatim>\<open>sensor.py\<close> uses them.

  Left out: the display state that the \<^verbatim>\<open>async_update\<close> methods of the entities
  compute (a refresh is the task \<open>AsyncUpdate\<close> of the entity), the text of the names,
  of the debug messages and of the notifications, and the resolution of the
  configuration at the head of \<^verbatim>\<open>async_setup_entry\<close>. A debug message is built before
  it is handed to the logger; where building it can raise (lines 219 to 221) the
  exception is kept. The state of the registry after an exception that escapes is not
  tracked.
\<close>

subsection \<open>Exceptions\<close>

text \<open>
  \<open>provider_error\<close> are the exceptions of the provider library (the handlers of the
  source name \<^verbatim>\<open>IndicationsCountException\<close> before \<^verbatim>\<open>MosenergosbytException\<close>).
  \<open>py_error\<close> are the built-in exceptions that no handler of the source catches.
\<close>

datatype provider_error = MosenergosbytException string | IndicationsCountException string

datatype py_error = ValueError | KeyError | AttributeError

subsection \<open>Objects of the provider library\<close>

text \<open>
  The payload \<^verbatim>\<open>indications\<close> of a service call is, by \<^verbatim>\<open>INDICATIONS_SCHEMA\<close>,
  a list of integers or a dictionary from tariff positions to integers; the tuple is
  what the incremental branch of \<^verbatim>\<open>_get_real_indications\<close> builds. Readings are
  integers here (the library also admits floats).
\<close>

datatype indications = IndList "int list" | IndDict "(int \<times> int) list" | IndTuple "int list"

record ChargeCalculation =
  period :: string
  charged :: int
  calc_indications :: "(string \<times> int) list"
  comment :: string

text \<open>
  A meter: \<open>None\<close> in a sequence of indications is Python's \<^verbatim>\<open>None\<close>. The two
  capabilities are optional attributes (\<^verbatim>\<open>hasattr\<close> in the source); when present
  they answer a submission with the provider's comment, or a calculation, or fail.
\<close>

record Meter =
  meter_code :: string
  last_indications :: "int option list"
  submitted_indications :: "int option list"
  save_indications :: "(indications \<Rightarrow> bool \<Rightarrow> provider_error + string) option"
  get_charge_indications :: "(indications \<Rightarrow> bool \<Rightarrow> provider_error + ChargeCalculation) option"

record Invoice =
  invoice_id :: string
  total :: int

text \<open>An account, with what its two fetches answer during one cycle.\<close>

record Account =
  account_code :: string
  get_meters :: "provider_error + (string \<times> Meter) list"
  get_last_invoice :: "provider_error + Invoice option"

record API =
  is_logged_in :: bool
  logged_in_at :: int
  login :: "provider_error option"
  logout :: "provider_error option"
  get_accounts :: "provider_error + (string \<times> Account) list"

subsection \<open>Entities\<close>

text \<open>
  The object bound to \<^verbatim>\<open>MESMeterSensor.meter\<close>: a meter, or a string when the
  dictionary comprehension of the allow-list filter has unpacked a meter code.
\<close>

datatype pyobj = MeterObj Meter | StrObj string

text \<open>
  \<open>uid\<close> is the identity of the Python object: two entities are the same object when
  their \<open>uid\<close> is the same. \<open>entity_id\<close> is the identifier the host assigns once the
  entity is added. The derived display state (icon, state, unit, attributes) and the
  text of the name are left out.
\<close>

record MESEntity =
  uid :: nat
  entity_id :: "string option"

record MESMeterSensor = MESEntity +
  meter :: pyobj

record MESInvoiceSensor = MESEntity +
  invoice :: Invoice

record MESAccountSensor = MESEntity +
  account :: Account
  meter_entities :: "(string \<times> MESMeterSensor) list option"
  invoice_entity :: "MESInvoiceSensor option"

subsection \<open>Configuration\<close>

text \<open>
  \<^verbatim>\<open>user_cfg[CONF_ACCOUNTS]\<close> maps an account code to \<^verbatim>\<open>True\<close> or to a list of
  meter codes; \<^verbatim>\<open>user_cfg[CONF_INVOICES]\<close> is a boolean or a list of account codes.
  A key that is absent from \<^verbatim>\<open>user_cfg\<close> is \<open>None\<close>.
\<close>

datatype account_filter = AllMeters | MeterCodes "string list"

datatype invoice_filter = InvoicesBool bool | InvoiceAccounts "string list"

text \<open>
  A template as \<^verbatim>\<open>str.format\<close> reads it: literal text and replacement fields
  \<^verbatim>\<open>{name}\<close>. Fields by position, lookups inside a field, conversions and braces
  without their partner are not represented.
\<close>

datatype piece = Text string | Field string

type_synonym template = "piece list"

text \<open>
  \<^verbatim>\<open>template.format(**kwargs)\<close> for the keywords given: a replacement field that
  names none of them raises \<^verbatim>\<open>KeyError\<close>. The result is the exception raised, if
  any; the text built is not kept.
\<close>

definition format_error :: "string list \<Rightarrow> template \<Rightarrow> py_error option" where
  "format_error keywords t =
     (if list_all (\<lambda>p. case p of Text s \<Rightarrow> True | Field f \<Rightarrow> f \<in> set keywords) t
      then None else Some KeyError)"

text \<open>
  The three name formats are the values read at lines 105 to 107,
  \<^verbatim>\<open>user_cfg.get(CONF_METER_NAME, DEFAULT_METER_NAME_FORMAT)\<close> and its two siblings: the
  configured template, or the default of the package, a constant that is not part of
  this file.
\<close>

record user_cfg =
  CONF_USERNAME :: string
  CONF_LOGIN_TIMEOUT :: int
  CONF_ACCOUNTS :: "(string \<times> account_filter) list option"
  CONF_INVOICES :: "invoice_filter option"
  meter_name_format :: template
  account_name_format :: template
  invoice_name_format :: template

subsection \<open>What a run does to its surroundings\<close>

text \<open>The coroutines collected in \<^verbatim>\<open>tasks\<close>, by the \<open>uid\<close> of their entity.\<close>

datatype task = AsyncUpdate nat | AsyncRemove nat

text \<open>
  The field \<^verbatim>\<open>create_notification\<close> of a call: a boolean, or the caller's overrides of
  the notification, each a template over the fields of the result event.
\<close>

datatype notification = NotifyBool bool | NotifyPayload "(string \<times> template) list"

text \<open>
  The calls to the provider and to the host, and the error messages logged, in the
  order they happen (debug messages are left out).
\<close>

datatype event =
    LogError string
  | LogWarning string
  | ApiLogin
  | ApiLogout
  | ApiGetAccounts
  | GetMeters string
  | GetLastInvoice string
  | ScheduleUpdateHaState nat
  | AsyncioWait "task list"
  | AddEntities "nat list"
  | SaveIndications string indications bool
  | GetChargeIndications string indications bool
  | FirePushResult "string option" string indications string
  | FireCalculationResult "string option" string indications ChargeCalculation
  | CreateNotification string "(string \<times> template) list"
  | IssueAccountUpdate string

text \<open>
  \<^verbatim>\<open>hass.data\<close> and the service registry. \<open>uid_counter\<close> is the next unused object
  identity; \<^verbatim>\<open>DATA_UPDATERS\<close> maps an entry to the interval of its periodic trigger.
\<close>

record hass =
  DATA_API_OBJECTS :: "(string \<times> API) list"
  DATA_ENTITIES :: "(string \<times> (string \<times> MESAccountSensor) list) list"
  DATA_UPDATERS :: "(string \<times> int) list"
  services :: "string list"
  uid_counter :: nat

text \<open>The local variables of one run of \<^verbatim>\<open>_entity_updater\<close>.\<close>

record updater_state =
  created_entities :: "(string \<times> MESAccountSensor) list"
  new_accounts :: "(string \<times> MESAccountSensor) list"
  new_meters :: "(string \<times> MESMeterSensor) list"
  new_invoices :: "(string \<times> MESInvoiceSensor) list"
  tasks :: "task list"
  trace :: "event list"
  next_uid :: nat

section \<open>The services\<close>

subsection \<open>\<^verbatim>\<open>_get_real_indications\<close>\<close>

text \<open>
  Iterating the payload: a list yields its items, a dictionary yields its keys.
\<close>

fun iter_indications :: "indications \<Rightarrow> int list" where
  "iter_indications (IndList xs) = xs"
| "iter_indications (IndDict kvs) = map fst kvs"
| "iter_indications (IndTuple xs) = xs"

text \<open>
  Python's \<^verbatim>\<open>x or y\<close> on optional numbers: \<^verbatim>\<open>x\<close> when it is truthy (neither
  \<^verbatim>\<open>None\<close> nor zero), else \<^verbatim>\<open>y\<close>.
\<close>

definition truthy :: "int option \<Rightarrow> bool" where
  "truthy x = (case x of None \<Rightarrow> False | Some v \<Rightarrow> v \<noteq> 0)"

definition py_or :: "int option \<Rightarrow> int option \<Rightarrow> int option" where
  "py_or x y = (if truthy x then x else y)"

text \<open>\<^verbatim>\<open>s or l or 0\<close>; the last operand is a number, so the result is one.\<close>

definition s_or_l_or_0 :: "int option \<Rightarrow> int option \<Rightarrow> int" where
  "s_or_l_or_0 s l = (case py_or (py_or s l) (Some 0) of None \<Rightarrow> 0 | Some v \<Rightarrow> v)"

text \<open>
  \<^verbatim>\<open>zip(call_data[ATTR_INDICATIONS], last_indications, submitted_indications)\<close> stops
  at the shortest of the three.
\<close>

definition zip3 :: "'a list \<Rightarrow> 'b list \<Rightarrow> 'c list \<Rightarrow> ('a \<times> 'b \<times> 'c) list" where
  "zip3 xs ys zs = zip xs (zip ys zs)"

record call_data =
  ATTR_ENTITY_ID :: "string option"
  ATTR_METER_CODE :: "string option"
  ATTR_INDICATIONS :: indications
  ATTR_IGNORE_PERIOD :: bool
  ATTR_INCREMENTAL :: bool
  ATTR_NOTIFICATION :: notification

definition get_real_indications :: "Meter \<Rightarrow> call_data \<Rightarrow> indications" where
  "get_real_indications m cd =
     (if ATTR_INCREMENTAL cd
      then IndTuple (map (\<lambda>(a, l, s). a + s_or_l_or_0 s l)
             (zip3 (iter_indications (ATTR_INDICATIONS cd))
                   (last_indications m) (submitted_indications m)))
      else ATTR_INDICATIONS cd)"

text \<open>
  The rule as the specification words it: the submitted value if present, else the last
  value if present, else zero.
\<close>

definition spec_base :: "int option \<Rightarrow> int option \<Rightarrow> int" where
  "spec_base s l = (case s of Some v \<Rightarrow> v | None \<Rightarrow> (case l of Some v \<Rightarrow> v | None \<Rightarrow> 0))"

subsection \<open>\<^verbatim>\<open>_find_meter_entity\<close>\<close>

text \<open>
  The two checkers. \<^verbatim>\<open>meter.meter and ...\<close> first tests the backing object: a meter
  is truthy, a string is truthy unless empty, and a string has no \<^verbatim>\<open>meter_code\<close>.
\<close>

definition check_entity_id :: "string \<Rightarrow> MESMeterSensor \<Rightarrow> py_error + bool" where
  "check_entity_id eid me =
     (case meter me of
        MeterObj m \<Rightarrow> Inr (entity_id me = Some eid)
      | StrObj s \<Rightarrow> Inr (s \<noteq> [] \<and> entity_id me = Some eid))"

definition check_meter_code :: "string \<Rightarrow> MESMeterSensor \<Rightarrow> py_error + bool" where
  "check_meter_code c me =
     (case meter me of
        MeterObj m \<Rightarrow> Inr (meter_code m = c)
      | StrObj s \<Rightarrow> (if s = [] then Inr False else Inl AttributeError))"

text \<open>The three nested loops; the first match returns.\<close>

fun scan_meters ::
  "(MESMeterSensor \<Rightarrow> py_error + bool) \<Rightarrow> MESMeterSensor list \<Rightarrow> py_error + MESMeterSensor option"
where
  "scan_meters checker [] = Inr None"
| "scan_meters checker (me # mes) =
     (case checker me of
        Inl err \<Rightarrow> Inl err
      | Inr True \<Rightarrow> Inr (Some me)
      | Inr False \<Rightarrow> scan_meters checker mes)"

text \<open>
  \<^verbatim>\<open>account_sensor.meter_entities.values()\<close>: an account entity whose meters were
  never fetched still holds \<^verbatim>\<open>None\<close> there, which has no \<^verbatim>\<open>values\<close>.
\<close>

fun scan_accounts ::
  "(MESMeterSensor \<Rightarrow> py_error + bool) \<Rightarrow> MESAccountSensor list \<Rightarrow> py_error + MESMeterSensor option"
where
  "scan_accounts checker [] = Inr None"
| "scan_accounts checker (a # as) =
     (case meter_entities a of
        None \<Rightarrow> Inl AttributeError
      | Some mes \<Rightarrow>
          (case scan_meters checker (map snd mes) of
             Inl err \<Rightarrow> Inl err
           | Inr (Some me) \<Rightarrow> Inr (Some me)
           | Inr None \<Rightarrow> scan_accounts checker as))"

fun scan_entries ::
  "(MESMeterSensor \<Rightarrow> py_error + bool) \<Rightarrow> (string \<times> (string \<times> MESAccountSensor) list) list
     \<Rightarrow> py_error + (string \<times> MESMeterSensor) option"
where
  "scan_entries checker [] = Inr None"
| "scan_entries checker ((entry_id, account_sensors) # es) =
     (case scan_accounts checker (map snd account_sensors) of
        Inl err \<Rightarrow> Inl err
      | Inr (Some me) \<Rightarrow> Inr (Some (entry_id, me))
      | Inr None \<Rightarrow> scan_entries checker es)"

text \<open>
  The result is \<open>(entry_id, meter)\<close> on a match and \<open>(attr, None)\<close> otherwise, where
  \<open>attr\<close> is the name of the identifier used. The schema makes one of the two
  identifiers present; without either the subscript raises \<^verbatim>\<open>KeyError\<close>.
\<close>

definition find_meter_entity :: "hass \<Rightarrow> call_data \<Rightarrow> py_error + (string \<times> MESMeterSensor option)" where
  "find_meter_entity h cd =
     (case ATTR_ENTITY_ID cd of
        Some eid \<Rightarrow>
          (case scan_entries (check_entity_id eid) (DATA_ENTITIES h) of
             Inl err \<Rightarrow> Inl err
           | Inr (Some (entry_id, me)) \<Rightarrow> Inr (entry_id, Some me)
           | Inr None \<Rightarrow> Inr (''entity_id'', None))
      | None \<Rightarrow>
          (case ATTR_METER_CODE cd of
             None \<Rightarrow> Inl KeyError
           | Some c \<Rightarrow>
               (case scan_entries (check_meter_code c) (DATA_ENTITIES h) of
                  Inl err \<Rightarrow> Inl err
                | Inr (Some (entry_id, me)) \<Rightarrow> Inr (entry_id, Some me)
                | Inr None \<Rightarrow> Inr (''meter_code'', None))))"

subsection \<open>\<^verbatim>\<open>async_push_indications\<close> and \<^verbatim>\<open>async_calculate_indications\<close>\<close>

text \<open>
  The notification requested by the call: none when the field is falsy, otherwise one
  for the meter code, with the caller's overrides. Each override is formatted with the
  fields of the result event, \<^verbatim>\<open>value.format(**event_data)\<close>; a field that the event
  does not have raises \<^verbatim>\<open>KeyError\<close>, which neither handler of the service catches.
  The event shows the overrides by their templates.
\<close>

definition notify :: "notification \<Rightarrow> string \<Rightarrow> string list \<Rightarrow> py_error + event list" where
  "notify n code event_fields =
     (case n of
        NotifyBool b \<Rightarrow> Inr (if b then [CreateNotification code []] else [])
      | NotifyPayload kvs \<Rightarrow>
          (if kvs = [] then Inr []
           else if list_all (\<lambda>(key, value). format_error event_fields value = None) kvs
           then Inr [CreateNotification code kvs]
           else Inl KeyError))"

text \<open>The keys of \<^verbatim>\<open>event_data\<close> in the two services (lines 289 and 370).\<close>

definition push_event_fields :: "string list" where
  "push_event_fields = [''entity_id'', ''meter_code'', ''indications'', ''comment'']"

definition calculation_event_fields :: "string list" where
  "calculation_event_fields =
     [''entity_id'', ''meter_code'', ''indications'', ''period'', ''charged'',
      ''indications_dict'', ''comment'']"

definition not_found_message :: "string \<Rightarrow> string" where
  "not_found_message attr = ''Provided `'' @ attr @ ''` does not match any existing meter''"

text \<open>A meter code between single quotes, as the two messages below show it.\<close>

definition quoted :: "string \<Rightarrow> string" where
  "quoted code = [CHR 0x27] @ code @ [CHR 0x27]"

text \<open>
  Both services return the events they caused, or the exception that escaped. A string
  as backing object fails the capability test, and the message logged for that reads
  its \<^verbatim>\<open>meter_code\<close>, which raises.
\<close>

definition async_push_indications :: "hass \<Rightarrow> call_data \<Rightarrow> py_error + event list" where
  "async_push_indications h cd =
     (case find_meter_entity h cd of
        Inl err \<Rightarrow> Inl err
      | Inr (entry_id, None) \<Rightarrow> Inr [LogError (not_found_message entry_id)]
      | Inr (entry_id, Some meter_sensor) \<Rightarrow>
          (case meter meter_sensor of
             StrObj s \<Rightarrow> Inl AttributeError
           | MeterObj m \<Rightarrow>
               (case save_indications m of
                  None \<Rightarrow>
                    Inr [LogError (''Meter '' @ quoted (meter_code m)
                                   @ '' does not support indications pushing'')]
                | Some save \<Rightarrow>
                    (let ignore_period = ATTR_IGNORE_PERIOD cd;
                         inds = get_real_indications m cd;
                         call = SaveIndications (meter_code m) inds ignore_period
                     in case save inds ignore_period of
                          Inl (IndicationsCountException e) \<Rightarrow> Inr [call, LogError (''Error: '' @ e)]
                        | Inl (MosenergosbytException e) \<Rightarrow>
                            Inr [call, LogError (''API returned error: '' @ e)]
                        | Inr c \<Rightarrow>
                            (case notify (ATTR_NOTIFICATION cd) (meter_code m) push_event_fields of
                               Inl err \<Rightarrow> Inl err
                             | Inr notifications \<Rightarrow>
                                 Inr ([call, FirePushResult (entity_id meter_sensor) (meter_code m)
                                               inds c]
                                      @ notifications
                                      @ (if entry_id \<in> set (map fst (DATA_UPDATERS h))
                                         then [IssueAccountUpdate entry_id] else [])))))))"

definition async_calculate_indications :: "hass \<Rightarrow> call_data \<Rightarrow> py_error + event list" where
  "async_calculate_indications h cd =
     (case find_meter_entity h cd of
        Inl err \<Rightarrow> Inl err
      | Inr (entry_id, None) \<Rightarrow> Inr [LogError (not_found_message entry_id)]
      | Inr (entry_id, Some meter_sensor) \<Rightarrow>
          (case meter meter_sensor of
             StrObj s \<Rightarrow> Inl AttributeError
           | MeterObj m \<Rightarrow>
               (case get_charge_indications m of
                  None \<Rightarrow>
                    Inr [LogError (''Meter '' @ quoted (meter_code m)
                                   @ '' does not support indications calculations'')]
                | Some calculate \<Rightarrow>
                    (let ignore_period = ATTR_IGNORE_PERIOD cd;
                         inds = get_real_indications m cd;
                         call = GetChargeIndications (meter_code m) inds ignore_period
                     in case calculate inds ignore_period of
                          Inl (IndicationsCountException e) \<Rightarrow> Inr [call, LogError (''Error: '' @ e)]
                        | Inl (MosenergosbytException e) \<Rightarrow>
                            Inr [call, LogError (''API returned error: '' @ e)]
                        | Inr calculation \<Rightarrow>
                            (case notify (ATTR_NOTIFICATION cd) (meter_code m)
                                    calculation_event_fields of
                               Inl err \<Rightarrow> Inl err
                             | Inr notifications \<Rightarrow>
                                 Inr ([call, FireCalculationResult (entity_id meter_sensor)
                                               (meter_code m) inds calculation]
                                      @ notifications))))))"

section \<open>The update cycle \<^verbatim>\<open>_entity_updater\<close>\<close>

subsection \<open>Authentication\<close>

text \<open>
  The first \<^verbatim>\<open>try\<close> block (lines 87 to 98): log in when logged out, log out and in again when the
  login is older than the timeout. The result says whether the block got through, with
  the calls made and the message logged.
\<close>

definition error_text :: "provider_error \<Rightarrow> string" where
  "error_text e = (case e of MosenergosbytException s \<Rightarrow> s | IndicationsCountException s \<Rightarrow> s)"

definition authentication_error :: "provider_error \<Rightarrow> event" where
  "authentication_error e = LogError (''Authentication error: '' @ error_text e)"

definition accounts_error :: "provider_error \<Rightarrow> event" where
  "accounts_error e = LogError (''Error fetching accounts: '' @ error_text e)"

definition authenticate :: "API \<Rightarrow> user_cfg \<Rightarrow> int \<Rightarrow> bool \<times> event list" where
  "authenticate api cfg utcnow =
     (if \<not> is_logged_in api then
        (case login api of
           Some e \<Rightarrow> (False, [ApiLogin, authentication_error e])
         | None \<Rightarrow> (True, [ApiLogin]))
      else if logged_in_at api + CONF_LOGIN_TIMEOUT cfg \<le> utcnow then
        (case logout api of
           Some e \<Rightarrow> (False, [ApiLogout, authentication_error e])
         | None \<Rightarrow>
             (case login api of
                Some e \<Rightarrow> (False, [ApiLogout, ApiLogin, authentication_error e])
              | None \<Rightarrow> (True, [ApiLogout, ApiLogin])))
      else (True, []))"

subsection \<open>The allow-lists\<close>

text \<open>
  \<^verbatim>\<open>CONF_ACCOUNTS in user_cfg and user_cfg[CONF_ACCOUNTS]\<close>, tested for truth: the key
  is there and its dictionary is not empty. Likewise for the invoices, whose value is
  truthy when it is \<^verbatim>\<open>True\<close> or a list that is not empty.
\<close>

definition use_meter_filter :: "user_cfg \<Rightarrow> bool" where
  "use_meter_filter cfg = (case CONF_ACCOUNTS cfg of None \<Rightarrow> False | Some d \<Rightarrow> d \<noteq> [])"

definition use_invoice_filter :: "user_cfg \<Rightarrow> bool" where
  "use_invoice_filter cfg =
     (case CONF_INVOICES cfg of
        None \<Rightarrow> False
      | Some (InvoicesBool b) \<Rightarrow> b
      | Some (InvoiceAccounts l) \<Rightarrow> l \<noteq> [])"

text \<open>
  \<^verbatim>\<open>{k: v for k, v in meters if k in account_filter}\<close>: iterating the dictionary
  \<^verbatim>\<open>meters\<close> yields its keys, and \<^verbatim>\<open>k, v = key\<close> unpacks a key of exactly two
  characters into two one-character strings; any other key raises \<^verbatim>\<open>ValueError\<close>.
\<close>

fun meters_comprehension ::
  "string list \<Rightarrow> string list \<Rightarrow> (string \<times> pyobj) list \<Rightarrow> py_error + (string \<times> pyobj) list"
where
  "meters_comprehension [] account_filter acc = Inr acc"
| "meters_comprehension (key # keys) account_filter acc =
     (case key of
        [k, v] \<Rightarrow>
          meters_comprehension keys account_filter
            (if [k] \<in> set account_filter then AList.update [k] (StrObj [v]) acc else acc)
      | _ \<Rightarrow> Inl ValueError)"

definition all_meters :: "(string \<times> Meter) list \<Rightarrow> (string \<times> pyobj) list" where
  "all_meters fetched = map (\<lambda>(k, m). (k, MeterObj m)) fetched"

definition filter_meters ::
  "user_cfg \<Rightarrow> string \<Rightarrow> (string \<times> Meter) list \<Rightarrow> py_error + (string \<times> pyobj) list"
where
  "filter_meters cfg code fetched =
     (if use_meter_filter cfg then
        (case CONF_ACCOUNTS cfg of
           None \<Rightarrow> Inr (all_meters fetched)
         | Some d \<Rightarrow>
             (case map_of d code of
                None \<Rightarrow> Inl KeyError
              | Some AllMeters \<Rightarrow> Inr (all_meters fetched)
              | Some (MeterCodes account_filter) \<Rightarrow>
                  meters_comprehension (map fst fetched) account_filter []))
      else Inr (all_meters fetched))"

text \<open>
  The rule as the specification words it: the fetched mapping restricted to the codes
  of the list, each code still mapped to its fetched meter.
\<close>

definition spec_filter_meters :: "string list \<Rightarrow> (string \<times> Meter) list \<Rightarrow> (string \<times> pyobj) list" where
  "spec_filter_meters account_filter fetched =
     all_meters (filter (\<lambda>(k, m). k \<in> set account_filter) fetched)"

text \<open>
  The invoice filter: inside \<^verbatim>\<open>if use_invoice_filter:\<close> the account is skipped when
  the filter \<^verbatim>\<open>is False\<close>, or is a list without the account's code.
\<close>

definition skip_invoice :: "user_cfg \<Rightarrow> string \<Rightarrow> bool" where
  "skip_invoice cfg code =
     (if use_invoice_filter cfg then
        (case CONF_INVOICES cfg of
           None \<Rightarrow> False
         | Some (InvoicesBool b) \<Rightarrow> \<not> b
         | Some (InvoiceAccounts l) \<Rightarrow> code \<notin> set l)
      else False)"

subsection \<open>Meters of one account\<close>

text \<open>
  \<^verbatim>\<open>for meter_code in meter_entities.keys() - meters.keys()\<close>: the codes to retire.
  Python does not fix the order of a set difference; the order of the dictionary is
  taken here.
\<close>

definition stale_codes :: "(string \<times> MESMeterSensor) list \<Rightarrow> (string \<times> pyobj) list \<Rightarrow> string list" where
  "stale_codes mes meters = filter (\<lambda>c. c \<notin> set (map fst meters)) (remdups (map fst mes))"

fun remove_loop ::
  "string list \<Rightarrow> (string \<times> MESMeterSensor) list \<times> updater_state
     \<Rightarrow> (string \<times> MESMeterSensor) list \<times> updater_state"
where
  "remove_loop [] (mes, st) = (mes, st)"
| "remove_loop (c # cs) (mes, st) =
     (case map_of mes c of
        None \<Rightarrow> remove_loop cs (mes, st)
      | Some e \<Rightarrow>
          remove_loop cs
            (AList.delete c mes, st\<lparr>tasks := tasks st @ [AsyncRemove (uid e)]\<rparr>))"

text \<open>\<^verbatim>\<open>for meter_code, meter in meters.items()\<close>: create or update.\<close>

fun upsert_loop ::
  "(string \<times> pyobj) list \<Rightarrow> (string \<times> MESMeterSensor) list \<times> updater_state
     \<Rightarrow> (string \<times> MESMeterSensor) list \<times> updater_state"
where
  "upsert_loop [] (mes, st) = (mes, st)"
| "upsert_loop ((c, m) # ms) (mes, st) =
     (case map_of mes c of
        None \<Rightarrow>
          (let e = \<lparr>uid = next_uid st, entity_id = None, meter = m\<rparr>
           in upsert_loop ms
                (AList.update c e mes,
                 st\<lparr>new_meters := AList.update c e (new_meters st),
                    tasks := tasks st @ [AsyncUpdate (uid e)],
                    next_uid := Suc (next_uid st)\<rparr>))
      | Some e \<Rightarrow>
          upsert_loop ms
            (AList.update c (e\<lparr>meter := m\<rparr>) mes,
             st\<lparr>trace := trace st @ [ScheduleUpdateHaState (uid e)]\<rparr>))"

text \<open>
  Lines 148 to 170: the entity's meter dictionary (a fresh one when there was none)
  against the meters to consider.
\<close>

definition diff_meters ::
  "(string \<times> MESMeterSensor) list option \<Rightarrow> (string \<times> pyobj) list \<Rightarrow> updater_state
     \<Rightarrow> (string \<times> MESMeterSensor) list \<times> updater_state"
where
  "diff_meters old meters st =
     upsert_loop meters
       (case old of
          None \<Rightarrow> ([], st)
        | Some mes \<Rightarrow> remove_loop (stale_codes mes meters) (mes, st))"

definition meters_error :: "provider_error \<Rightarrow> event" where
  "meters_error e = LogError (''Error retrieving meters: '' @ error_text e)"

text \<open>
  The second \<^verbatim>\<open>try\<close> block (lines 138 to 174). A provider error is caught and
  logged; an exception of the filter is no provider error and escapes.
\<close>

definition process_meters ::
  "user_cfg \<Rightarrow> string \<Rightarrow> Account \<Rightarrow> MESAccountSensor \<times> updater_state
     \<Rightarrow> py_error + MESAccountSensor \<times> updater_state"
where
  "process_meters cfg code acc = (\<lambda>(account_entity, st).
     (let st1 = st\<lparr>trace := trace st @ [GetMeters code]\<rparr>
      in case get_meters acc of
           Inl e \<Rightarrow> Inr (account_entity, st1\<lparr>trace := trace st1 @ [meters_error e]\<rparr>)
         | Inr fetched \<Rightarrow>
             (case filter_meters cfg code fetched of
                Inl err \<Rightarrow> Inl err
              | Inr meters \<Rightarrow>
                  (let (mes, st2) = diff_meters (meter_entities account_entity) meters st1
                   in Inr (account_entity\<lparr>meter_entities := Some mes\<rparr>, st2)))))"

subsection \<open>Last invoice of one account\<close>

text \<open>
  Lines 176 to 202: the invoice filter, then the third \<^verbatim>\<open>try\<close> block. A changed
  invoice schedules the state update of the account entity, as the source does.
\<close>

definition invoices_error :: "provider_error \<Rightarrow> event" where
  "invoices_error e = LogError (''Error fetching invoices: '' @ error_text e)"

definition process_invoice ::
  "user_cfg \<Rightarrow> string \<Rightarrow> Account \<Rightarrow> MESAccountSensor \<times> updater_state
     \<Rightarrow> MESAccountSensor \<times> updater_state"
where
  "process_invoice cfg code acc = (\<lambda>(account_entity, st).
     (if skip_invoice cfg code then (account_entity, st)
      else
        (let st1 = st\<lparr>trace := trace st @ [GetLastInvoice code]\<rparr>
         in case get_last_invoice acc of
              Inl e \<Rightarrow> (account_entity, st1\<lparr>trace := trace st1 @ [invoices_error e]\<rparr>)
            | Inr None \<Rightarrow> (account_entity, st1)
            | Inr (Some latest) \<Rightarrow>
                (case invoice_entity account_entity of
                   None \<Rightarrow>
                     (let ie = \<lparr>uid = next_uid st1, entity_id = None, invoice = latest\<rparr>
                      in (account_entity\<lparr>invoice_entity := Some ie\<rparr>,
                          st1\<lparr>new_invoices := AList.update (invoice_id latest) ie (new_invoices st1),
                              tasks := tasks st1 @ [AsyncUpdate (uid ie)],
                              next_uid := Suc (next_uid st1)\<rparr>))
                 | Some ie \<Rightarrow>
                     (if invoice_id (invoice ie) \<noteq> invoice_id latest
                      then (account_entity\<lparr>invoice_entity := Some (ie\<lparr>invoice := latest\<rparr>)\<rparr>,
                            st1\<lparr>trace := trace st1 @ [ScheduleUpdateHaState (uid account_entity)]\<rparr>)
                      else (account_entity, st1))))))"

subsection \<open>One account, all accounts, the whole cycle\<close>

text \<open>
  Lines 129 to 136. A new account entity is put into \<^verbatim>\<open>new_accounts\<close>, a known one
  stays in \<^verbatim>\<open>created_entities\<close>; the rest of the iteration changes the entity
  through that reference. The model carries the entity along and stores it where it
  belongs when the iteration is over.
\<close>

definition lookup_account ::
  "string \<Rightarrow> Account \<Rightarrow> updater_state \<Rightarrow> bool \<times> MESAccountSensor \<times> updater_state"
where
  "lookup_account code acc st =
     (case map_of (created_entities st) code of
        None \<Rightarrow>
          (let e = \<lparr>uid = next_uid st, entity_id = None, account = acc,
                    meter_entities = None, invoice_entity = None\<rparr>
           in (True, e, st\<lparr>tasks := tasks st @ [AsyncUpdate (uid e)],
                           next_uid := Suc (next_uid st)\<rparr>))
      | Some e \<Rightarrow>
          (False, e\<lparr>account := acc\<rparr>,
           st\<lparr>trace := trace st @ [ScheduleUpdateHaState (uid e)]\<rparr>))"

definition store_account ::
  "bool \<Rightarrow> string \<Rightarrow> MESAccountSensor \<times> updater_state \<Rightarrow> updater_state"
where
  "store_account is_new code = (\<lambda>(account_entity, st).
     (if is_new
      then st\<lparr>new_accounts := AList.update code account_entity (new_accounts st)\<rparr>
      else st\<lparr>created_entities := AList.update code account_entity (created_entities st)\<rparr>))"

definition process_account ::
  "user_cfg \<Rightarrow> string \<times> Account \<Rightarrow> updater_state \<Rightarrow> py_error + updater_state"
where
  "process_account cfg = (\<lambda>(code, acc) st.
     (case lookup_account code acc st of
        (is_new, account_entity, st1) \<Rightarrow>
          (case process_meters cfg code acc (account_entity, st1) of
             Inl err \<Rightarrow> Inl err
           | Inr r \<Rightarrow> Inr (store_account is_new code (process_invoice cfg code acc r)))))"

fun run_accounts ::
  "user_cfg \<Rightarrow> (string \<times> Account) list \<Rightarrow> updater_state \<Rightarrow> py_error + updater_state"
where
  "run_accounts cfg [] st = Inr st"
| "run_accounts cfg (a # as) st =
     (case process_account cfg a st of
        Inl err \<Rightarrow> Inl err
      | Inr st' \<Rightarrow> run_accounts cfg as st')"

text \<open>\<^verbatim>\<open>created_entities.update(new_accounts)\<close>.\<close>

definition dict_update :: "('k \<times> 'v) list \<Rightarrow> ('k \<times> 'v) list \<Rightarrow> ('k \<times> 'v) list" where
  "dict_update d e = foldl (\<lambda>a (k, v). AList.update k v a) d e"

text \<open>Lines 204 to 214: the barrier and the three batches handed to the host.\<close>

definition finish_events :: "updater_state \<Rightarrow> event list" where
  "finish_events st =
     (if tasks st \<noteq> [] then [AsyncioWait (tasks st)] else [])
     @ (if new_accounts st \<noteq> [] then [AddEntities (map (\<lambda>(c, e). uid e) (new_accounts st))] else [])
     @ (if new_meters st \<noteq> [] then [AddEntities (map (\<lambda>(c, e). uid e) (new_meters st))] else [])
     @ (if new_invoices st \<noteq> [] then [AddEntities (map (\<lambda>(c, e). uid e) (new_invoices st))] else [])"

datatype cycle_result = ReturnFalse | ReturnCounts nat nat nat

text \<open>
  The locals before the loop: \<^verbatim>\<open>created_entities\<close> is the entry's dictionary in
  \<^verbatim>\<open>hass.data[DATA_ENTITIES]\<close>, an empty one when the entry has none yet.
\<close>

definition initial_state :: "hass \<Rightarrow> string \<Rightarrow> event list \<Rightarrow> updater_state" where
  "initial_state h entry_id evs =
     \<lparr>created_entities = (case map_of (DATA_ENTITIES h) entry_id of None \<Rightarrow> [] | Some d \<Rightarrow> d),
      new_accounts = [], new_meters = [], new_invoices = [], tasks = [],
      trace = evs @ [ApiGetAccounts], next_uid = uid_counter h\<rparr>"

text \<open>
  The \<^verbatim>\<open>name\<close> properties (lines 588, 652 and 690), read for an entity made with the
  template of this cycle. The arguments are evaluated before the template is applied:
  \<^verbatim>\<open>self.meter.meter_code\<close> raises \<^verbatim>\<open>AttributeError\<close> for a string, which has no such
  attribute; an account and an invoice have what their names read.
\<close>

definition meter_name :: "template \<Rightarrow> MESMeterSensor \<Rightarrow> py_error option" where
  "meter_name t e =
     (case meter e of
        MeterObj m \<Rightarrow> format_error [''code''] t
      | StrObj s \<Rightarrow> Some AttributeError)"

definition account_name :: "template \<Rightarrow> MESAccountSensor \<Rightarrow> py_error option" where
  "account_name t e = format_error [''code'', ''service_name'', ''provider_name''] t"

definition invoice_name :: "template \<Rightarrow> MESInvoiceSensor \<Rightarrow> py_error option" where
  "invoice_name t e = format_error [''code''] t"

text \<open>
  \<^verbatim>\<open>'New meters: %s' % new_meters\<close>: the operator formats the dictionary at once,
  whatever the log level, and the text of a dictionary holds the representation of each
  of its values in turn; the host's representation of an entity reads its name. An
  empty dictionary reads no name.
\<close>

fun format_dict :: "('e \<Rightarrow> py_error option) \<Rightarrow> (string \<times> 'e) list \<Rightarrow> py_error option" where
  "format_dict name [] = None"
| "format_dict name ((c, e) # es) =
     (case name e of
        Some err \<Rightarrow> Some err
      | None \<Rightarrow> format_dict name es)"

text \<open>Lines 219 to 221: the new meters, then the new accounts, then the new invoices.\<close>

definition debug_messages :: "user_cfg \<Rightarrow> updater_state \<Rightarrow> py_error option" where
  "debug_messages cfg st =
     (case format_dict (meter_name (meter_name_format cfg)) (new_meters st) of
        Some err \<Rightarrow> Some err
      | None \<Rightarrow>
          (case format_dict (account_name (account_name_format cfg)) (new_accounts st) of
             Some err \<Rightarrow> Some err
           | None \<Rightarrow> format_dict (invoice_name (invoice_name_format cfg)) (new_invoices st)))"

text \<open>
  Lines 204 to 223: the end of a cycle that got through the loop. The registry is merged
  (line 216) before the debug messages are built; when building them raises, the
  exception leaves the cycle in place of the counts.
\<close>

definition finish ::
  "hass \<Rightarrow> string \<Rightarrow> user_cfg \<Rightarrow> updater_state
     \<Rightarrow> py_error + cycle_result \<times> hass \<times> event list"
where
  "finish h entry_id cfg st =
     (case debug_messages cfg st of
        Some err \<Rightarrow> Inl err
      | None \<Rightarrow>
          Inr (ReturnCounts (length (new_accounts st)) (length (new_meters st))
                 (length (new_invoices st)),
               h\<lparr>DATA_ENTITIES :=
                    AList.update entry_id (dict_update (created_entities st) (new_accounts st))
                      (DATA_ENTITIES h),
                  uid_counter := next_uid st\<rparr>,
               trace st @ finish_events st))"

definition entity_updater ::
  "hass \<Rightarrow> string \<Rightarrow> user_cfg \<Rightarrow> int \<Rightarrow> py_error + cycle_result \<times> hass \<times> event list"
where
  "entity_updater h entry_id cfg utcnow =
     (case map_of (DATA_API_OBJECTS h) entry_id of
        None \<Rightarrow> Inr (ReturnFalse, h, [])
      | Some api \<Rightarrow>
          (case authenticate api cfg utcnow of
             (False, evs) \<Rightarrow> Inr (ReturnFalse, h, evs)
           | (True, evs) \<Rightarrow>
               (case get_accounts api of
                  Inl e \<Rightarrow> Inr (ReturnFalse, h, evs @ [ApiGetAccounts, accounts_error e])
                | Inr accounts \<Rightarrow>
                    (case run_accounts cfg accounts (initial_state h entry_id evs) of
                       Inl err \<Rightarrow> Inl err
                     | Inr st \<Rightarrow> finish h entry_id cfg st))))"

section \<open>Setting up an entry\<close>

definition SERVICE_PUSH_INDICATIONS :: string where
  "SERVICE_PUSH_INDICATIONS = ''push_indications''"

definition SERVICE_CALCULATE_INDICATIONS :: string where
  "SERVICE_CALCULATE_INDICATIONS = ''calculate_indications''"

definition async_register_services :: "hass \<Rightarrow> hass" where
  "async_register_services h =
     (if SERVICE_PUSH_INDICATIONS \<in> set (services h) then h
      else h\<lparr>services := services h @ [SERVICE_PUSH_INDICATIONS, SERVICE_CALCULATE_INDICATIONS]\<rparr>)"

text \<open>
  \<^verbatim>\<open>async_setup_entry\<close> from the first cycle on (lines 451 to 475; the configuration
  and the scan interval are resolved before, and are arguments here). The answer is the
  boolean returned, with the host's state and the events, or the exception that left
  the cycle. The cycle catches every provider error, so none reaches the handler that
  ends the function.
\<close>

definition async_setup_entry ::
  "hass \<Rightarrow> string \<Rightarrow> user_cfg \<Rightarrow> int \<Rightarrow> int \<Rightarrow> py_error + bool \<times> hass \<times> event list"
where
  "async_setup_entry h entry_id cfg scan_interval utcnow =
     (case entity_updater h entry_id cfg utcnow of
        Inl err \<Rightarrow> Inl err
      | Inr (ReturnFalse, h', evs) \<Rightarrow> Inr (False, h', evs)
      | Inr (ReturnCounts a m i, h', evs) \<Rightarrow>
          (if a + m + i = 0
           then Inr (True, h', evs @ [LogWarning ''No accounts or meters discovered, check your configuration''])
           else Inr (True,
                     (async_register_services h')
                       \<lparr>DATA_UPDATERS := AList.update entry_id scan_interval
                                           (DATA_UPDATERS (async_register_services h'))\<rparr>,
                     evs)))"

section \<open>Notions for the properties, and sample data\<close>

text \<open>
  The base value of an incremental reading as the code computes it, in the words of the
  specification: the submitted value if present and not zero, else the last value if
  present, else zero.
\<close>

definition amended_base :: "int option \<Rightarrow> int option \<Rightarrow> int" where
  "amended_base s l =
     (case s of
        Some v \<Rightarrow> (if v \<noteq> 0 then v else (case l of Some w \<Rightarrow> w | None \<Rightarrow> 0))
      | None \<Rightarrow> (case l of Some w \<Rightarrow> w | None \<Rightarrow> 0))"

text \<open>Sample objects for the concrete runs below.\<close>

definition sample_meter :: "string \<Rightarrow> int option list \<Rightarrow> int option list \<Rightarrow> Meter" where
  "sample_meter code ls ss =
     \<lparr>meter_code = code, last_indications = ls, submitted_indications = ss,
      save_indications = Some (\<lambda>inds ignore_period. Inr ''accepted''),
      get_charge_indications = None\<rparr>"

definition sample_call :: "indications \<Rightarrow> bool \<Rightarrow> call_data" where
  "sample_call raw incremental =
     \<lparr>ATTR_ENTITY_ID = None, ATTR_METER_CODE = Some ''M1'', ATTR_INDICATIONS = raw,
      ATTR_IGNORE_PERIOD = False, ATTR_INCREMENTAL = incremental,
      ATTR_NOTIFICATION = NotifyBool False\<rparr>"

definition sample_account ::
  "string \<Rightarrow> provider_error + (string \<times> Meter) list \<Rightarrow> provider_error + Invoice option \<Rightarrow> string \<times> Account" where
  "sample_account code ms latest =
     (code, \<lparr>account_code = code, get_meters = ms, get_last_invoice = latest\<rparr>)"

definition sample_cfg :: user_cfg where
  "sample_cfg = \<lparr>CONF_USERNAME = ''user'', CONF_LOGIN_TIMEOUT = 3600,
                 CONF_ACCOUNTS = None, CONF_INVOICES = None,
                 meter_name_format = [Text ''Meter '', Field ''code''],
                 account_name_format = [Field ''provider_name'', Text '' '', Field ''code''],
                 invoice_name_format = [Text ''Invoice '', Field ''code'']\<rparr>"

definition sample_api :: "(string \<times> Account) list \<Rightarrow> API" where
  "sample_api accounts =
     \<lparr>is_logged_in = False, logged_in_at = 0, login = None, logout = None,
      get_accounts = Inr accounts\<rparr>"

definition sample_hass :: "(string \<times> Account) list \<Rightarrow> hass" where
  "sample_hass accounts =
     \<lparr>DATA_API_OBJECTS = [(''entry'', sample_api accounts)], DATA_ENTITIES = [],
      DATA_UPDATERS = [], services = [], uid_counter = 0\<rparr>"

text \<open>
  Session establishment fails when the login that is due fails, or the logout before
  it: the login of a logged-out client, or both steps once the login is as old as the
  timeout.
\<close>

definition session_fails :: "API \<Rightarrow> user_cfg \<Rightarrow> int \<Rightarrow> bool" where
  "session_fails api cfg utcnow =
     (if \<not> is_logged_in api then login api \<noteq> None
      else if logged_in_at api + CONF_LOGIN_TIMEOUT cfg \<le> utcnow
      then logout api \<noteq> None \<or> login api \<noteq> None
      else False)"

text \<open>The events of processing an account, as opposed to those of opening the cycle.\<close>

definition account_event :: "event \<Rightarrow> bool" where
  "account_event e =
     (case e of
        GetMeters c \<Rightarrow> True
      | GetLastInvoice c \<Rightarrow> True
      | ScheduleUpdateHaState u \<Rightarrow> True
      | AsyncioWait ts \<Rightarrow> True
      | AddEntities us \<Rightarrow> True
      | _ \<Rightarrow> False)"

text \<open>
  The exception, if any, with which the meter block of an account leaves the cycle: a
  provider error is caught there, so only the allow-list filter can raise.
\<close>

definition meters_raise :: "user_cfg \<Rightarrow> string \<times> Account \<Rightarrow> py_error option" where
  "meters_raise cfg = (\<lambda>(code, acc).
     (case get_meters acc of
        Inl e \<Rightarrow> None
      | Inr fetched \<Rightarrow>
          (case filter_meters cfg code fetched of Inl err \<Rightarrow> Some err | Inr meters \<Rightarrow> None)))"

text \<open>
  The allow-list step of an account hands meters on: the fetch fails (and the step is
  not reached), or the step does not raise and binds every code it keeps to a meter,
  not to a string. It is missed when an allow-list is configured without the account
  (line 143 raises \<^verbatim>\<open>KeyError\<close>), and in both outcomes of unpacking the keys at line
  146.
\<close>

definition is_meter :: "pyobj \<Rightarrow> bool" where
  "is_meter obj = (case obj of MeterObj m \<Rightarrow> True | StrObj s \<Rightarrow> False)"

definition meters_proper :: "user_cfg \<Rightarrow> string \<times> Account \<Rightarrow> bool" where
  "meters_proper cfg = (\<lambda>(code, acc).
     (case get_meters acc of
        Inl e \<Rightarrow> True
      | Inr fetched \<Rightarrow>
          (case filter_meters cfg code fetched of
             Inl err \<Rightarrow> False
           | Inr meters \<Rightarrow> list_all (\<lambda>(k, obj). is_meter obj) meters)))"

text \<open>
  The three name formats name only what the \<^verbatim>\<open>name\<close> properties pass them: the code
  for a meter and an invoice; the code, the service name and the provider name for an
  account.
\<close>

definition names_format :: "user_cfg \<Rightarrow> bool" where
  "names_format cfg =
     (format_error [''code''] (meter_name_format cfg) = None
      \<and> format_error [''code'', ''service_name'', ''provider_name''] (account_name_format cfg) = None
      \<and> format_error [''code''] (invoice_name_format cfg) = None)"

text \<open>
  An account has been handled in a list of events: its meters were requested, a failure
  of that request was logged, and unless the invoice filter leaves the account out its
  last invoice was requested, a failure logged.
\<close>

definition handled :: "user_cfg \<Rightarrow> string \<times> Account \<Rightarrow> event list \<Rightarrow> bool" where
  "handled cfg = (\<lambda>(code, acc) evs.
     GetMeters code \<in> set evs \<and>
     (case get_meters acc of Inl e \<Rightarrow> meters_error e \<in> set evs | Inr fetched \<Rightarrow> True) \<and>
     (skip_invoice cfg code \<or>
        GetLastInvoice code \<in> set evs \<and>
        (case get_last_invoice acc of Inl e \<Rightarrow> invoices_error e \<in> set evs | Inr latest \<Rightarrow> True)))"

text \<open>
  When a cycle returns \<^verbatim>\<open>False\<close>: no client is registered for the entry, the
  session cannot be established, or the account listing fails. The specification names
  the last two.
\<close>

definition cycle_fatal :: "hass \<Rightarrow> string \<Rightarrow> user_cfg \<Rightarrow> int \<Rightarrow> bool" where
  "cycle_fatal h entry_id cfg utcnow =
     (case map_of (DATA_API_OBJECTS h) entry_id of
        None \<Rightarrow> True
      | Some api \<Rightarrow> session_fails api cfg utcnow \<or> isl (get_accounts api))"

definition spec_cycle_fatal :: "hass \<Rightarrow> string \<Rightarrow> user_cfg \<Rightarrow> int \<Rightarrow> bool" where
  "spec_cycle_fatal h entry_id cfg utcnow =
     (case map_of (DATA_API_OBJECTS h) entry_id of
        None \<Rightarrow> False
      | Some api \<Rightarrow> session_fails api cfg utcnow \<or> isl (get_accounts api))"

text \<open>
  An account whose meters cannot be fetched, an account with one meter, and the
  registry after a first cycle over the former.
\<close>

definition failing_account :: "string \<times> Account" where
  "failing_account =
     sample_account ''X'' (Inl (MosenergosbytException ''timeout''))
       (Inr (Some \<lparr>invoice_id = ''i1'', total = 5\<rparr>))"

definition metered_account :: "string \<times> Account" where
  "metered_account =
     sample_account ''Y''
       (Inr [(''12345'', sample_meter ''12345'' [Some 100] [None])]) (Inr None)"

text \<open>An account whose one meter has a code of two characters.\<close>

definition short_code_account :: "string \<times> Account" where
  "short_code_account =
     sample_account ''Y'' (Inr [(''ab'', sample_meter ''ab'' [Some 100] [None])]) (Inr None)"

definition unfetched_hass :: hass where
  "unfetched_hass =
     (sample_hass [failing_account])
       \<lparr>DATA_ENTITIES :=
          [(''entry'',
            [(''X'', \<lparr>uid = 0, entity_id = None, account = snd failing_account,
                     meter_entities = None,
                     invoice_entity = Some \<lparr>uid = 1, entity_id = None,
                         invoice = \<lparr>invoice_id = ''i1'', total = 5\<rparr>\<rparr>\<rparr>)])],
        uid_counter := 2\<rparr>"

text \<open>
  The retirement tasks the removal loop adds for a list of codes, and the dictionary
  an optional attribute stands for.
\<close>

definition removal_tasks :: "string list \<Rightarrow> (string \<times> MESMeterSensor) list \<Rightarrow> task list" where
  "removal_tasks cs mes =
     concat (map (\<lambda>c. case map_of mes c of None \<Rightarrow> [] | Some e \<Rightarrow> [AsyncRemove (uid e)]) cs)"

definition dict_of :: "'a list option \<Rightarrow> 'a list" where
  "dict_of old = (case old of None \<Rightarrow> [] | Some d \<Rightarrow> d)"

text \<open>
  The example of the specification: an account entity with meters A and B, and a fetch
  that answers B and C.
\<close>

definition fetching_BC :: "string \<times> Account" where
  "fetching_BC =
     sample_account ''X''
       (Inr [(''B'', sample_meter ''B'' [Some 20] [None]),
             (''C'', sample_meter ''C'' [Some 30] [None])])
       (Inr None)"

definition registered_AB :: MESAccountSensor where
  "registered_AB =
     \<lparr>uid = 0, entity_id = Some ''sensor.x'', account = snd fetching_BC,
      meter_entities =
        Some [(''A'', \<lparr>uid = 1, entity_id = Some ''sensor.a'',
                       meter = MeterObj (sample_meter ''A'' [Some 10] [None])\<rparr>),
              (''B'', \<lparr>uid = 2, entity_id = Some ''sensor.b'',
                       meter = MeterObj (sample_meter ''B'' [Some 19] [None])\<rparr>)],
      invoice_entity = None\<rparr>"

definition sample_state :: "nat \<Rightarrow> updater_state" where
  "sample_state n =
     \<lparr>created_entities = [(''X'', registered_AB)], new_accounts = [], new_meters = [],
      new_invoices = [], tasks = [], trace = [], next_uid = n\<rparr>"










text \<open>A registry with the metered account alone, its entities added to the host.\<close>

definition metered_hass :: hass where
  "metered_hass =
     (sample_hass [metered_account])
       \<lparr>DATA_ENTITIES :=
          [(''entry'',
            [(''Y'', \<lparr>uid = 0, entity_id = Some ''sensor.y'', account = snd metered_account,
                     meter_entities = Some [(''12345'', \<lparr>uid = 1, entity_id = Some ''sensor.m'',
                          meter = MeterObj (sample_meter ''12345'' [Some 100] [None])\<rparr>)],
                     invoice_entity = None\<rparr>)])],
        DATA_UPDATERS := [(''entry'', 60)],
        uid_counter := 2\<rparr>"

text \<open>
  No meter entity of the registry passes the checker, and every account entity has its
  meter dictionary.
\<close>

definition unmatched :: "(MESMeterSensor \<Rightarrow> py_error + bool) \<Rightarrow> hass \<Rightarrow> bool" where
  "unmatched checker h =
     list_all (\<lambda>(entry_id, account_sensors).
       list_all (\<lambda>(code, a).
         (case meter_entities a of
            None \<Rightarrow> False
          | Some mes \<Rightarrow> list_all (\<lambda>(k, me). checker me = Inr False) mes))
         account_sensors)
       (DATA_ENTITIES h)"

section \<open>Properties\<close>

subsection \<open>Effective indications\<close>

lemma s_or_l_or_0_amended: "s_or_l_or_0 s l = amended_base s l"
  by (auto simp: s_or_l_or_0_def amended_base_def py_or_def truthy_def split: option.splits)

lemma length_zip3: "length (zip3 xs ys zs) = min (length xs) (min (length ys) (length zs))"
  by (simp add: zip3_def)

lemma nth_zip3: "i < length (zip3 xs ys zs) \<Longrightarrow> zip3 xs ys zs ! i = (xs ! i, ys ! i, zs ! i)"
  by (simp add: zip3_def)

lemma zip_take_length: "length ys \<le> n \<Longrightarrow> zip (take n xs) ys = zip xs ys"
proof (induction xs arbitrary: n ys)
  case Nil
  then show ?case by simp
next
  case (Cons x xs)
  then show ?case by (cases n; cases ys) simp_all
qed

lemma zip3_take:
  "min (length ys) (length zs) \<le> n \<Longrightarrow> zip3 (take n xs) ys zs = zip3 xs ys zs"
  by (simp add: zip3_def zip_take_length)

lemma zip3_take_min:
  "zip3 (take (min (length xs) (min (length ys) (length zs))) xs) ys zs = zip3 xs ys zs"
proof -
  have "take (min (length xs) (min (length ys) (length zs))) xs
          = take (min (length ys) (length zs)) xs"
    by (simp add: min_def)
  then show ?thesis by (simp add: zip3_take)
qed

text \<open>
  C3, amended. Without \<open>incremental\<close> the effective values are the payload itself,
  whatever its form. With \<open>incremental\<close> and a sequence \<open>raw\<close> as payload, the result
  is a tuple with one value for each position that the raw, the last and the submitted
  values all have, and the value at position \<open>i\<close> is \<open>raw[i]\<close> plus the submitted
  value if that is present and not zero, else the last value if present, else zero:
  Python's \<^verbatim>\<open>s or l or 0\<close> passes over a submitted value of zero as it passes over
  \<^verbatim>\<open>None\<close>. A mapping as payload of an incremental call is left aside here.
\<close>

theorem real_indications:
  "(\<not> ATTR_INCREMENTAL cd \<longrightarrow> get_real_indications m cd = ATTR_INDICATIONS cd) \<and>
   (ATTR_INCREMENTAL cd \<and> ATTR_INDICATIONS cd = IndList raw \<longrightarrow>
      (\<exists>vs. get_real_indications m cd = IndTuple vs \<and>
         length vs = min (length raw)
                       (min (length (last_indications m)) (length (submitted_indications m))) \<and>
         (\<forall>i < length vs.
            vs ! i = raw ! i
                     + amended_base (submitted_indications m ! i) (last_indications m ! i))))"
  by (simp add: get_real_indications_def s_or_l_or_0_amended nth_zip3 length_zip3)

text \<open>The examples of the specification: verbatim, incremental, submitted before last.\<close>

theorem real_indications_witness:
  "get_real_indications (sample_meter ''M1'' [Some 100, Some 50] [None, None])
       (sample_call (IndList [5, 3]) False) = IndList [5, 3]
   \<and> get_real_indications (sample_meter ''M1'' [Some 100, Some 50] [None, None])
       (sample_call (IndDict [(1, 5), (2, 3)]) False) = IndDict [(1, 5), (2, 3)]
   \<and> get_real_indications (sample_meter ''M1'' [Some 100, Some 50] [None, None])
       (sample_call (IndList [5, 3]) True) = IndTuple [105, 53]
   \<and> get_real_indications (sample_meter ''M1'' [Some 100] [Some 120])
       (sample_call (IndList [2]) True) = IndTuple [122]"
  using
    real_indications [of "sample_call (IndList [5, 3]) False"
                         "sample_meter ''M1'' [Some 100, Some 50] [None, None]" "[]"]
    real_indications [of "sample_call (IndDict [(1, 5), (2, 3)]) False"
                         "sample_meter ''M1'' [Some 100, Some 50] [None, None]" "[]"]
    real_indications [of "sample_call (IndList [5, 3]) True"
                         "sample_meter ''M1'' [Some 100, Some 50] [None, None]" "[5, 3]"]
    real_indications [of "sample_call (IndList [2]) True"
                         "sample_meter ''M1'' [Some 100] [Some 120]" "[2]"]
  by (simp add: sample_meter_def sample_call_def get_real_indications_def zip3_def
        s_or_l_or_0_def py_or_def truthy_def)

text \<open>
  C3 as stated fails where a submitted value of zero stands beside a last value: the
  specification's rule adds the submitted zero, the code adds the last value.
\<close>

theorem real_indications_zero_submitted:
  "get_real_indications (sample_meter ''M1'' [Some 100] [Some 0])
       (sample_call (IndList [2]) True) = IndTuple [102]
   \<and> 2 + spec_base (Some 0) (Some 100) = 2"
  by (simp add: sample_meter_def sample_call_def get_real_indications_def zip3_def
        s_or_l_or_0_def py_or_def truthy_def spec_base_def)

text \<open>
  A mapping as payload of an incremental call: \<^verbatim>\<open>zip\<close> iterates the keys of the
  dictionary, so the tariff positions are added to the base values and the readings do
  not enter the result. For \<^verbatim>\<open>{1: 5, 2: 3}\<close> on last values 100 and 50 the result is
  (101, 52), not (105, 53).
\<close>

lemma mapping_payload_adds_positions:
  "get_real_indications (sample_meter ''M1'' [Some 100, Some 50] [None, None])
       (sample_call (IndDict [(1, 5), (2, 3)]) True) = IndTuple [101, 52]"
  by (simp add: sample_meter_def sample_call_def get_real_indications_def zip3_def
        s_or_l_or_0_def py_or_def truthy_def)

text \<open>
  C9. An incremental call yields a tuple, and its length is the least of three counts:
  the raw values of the payload (the items of a sequence, the entries of a mapping, one
  pair for each key), the last indications and the submitted indications. Raw values of
  a sequence beyond that length do not enter the result, which is the one the truncated
  sequence gives.
\<close>

theorem real_indications_length:
  "ATTR_INCREMENTAL cd \<Longrightarrow>
     \<exists>vs. get_real_indications m cd = IndTuple vs \<and>
       length vs = min (case ATTR_INDICATIONS cd of
                          IndList raw \<Rightarrow> length raw
                        | IndDict kvs \<Rightarrow> length kvs
                        | IndTuple raw \<Rightarrow> length raw)
                     (min (length (last_indications m)) (length (submitted_indications m))) \<and>
       (\<forall>raw. ATTR_INDICATIONS cd = IndList raw \<longrightarrow>
          get_real_indications m (cd\<lparr>ATTR_INDICATIONS := IndList (take (length vs) raw)\<rparr>)
            = IndTuple vs)"
  by (cases "ATTR_INDICATIONS cd")
     (simp_all add: get_real_indications_def length_zip3 zip3_take_min)

text \<open>
  Three raw values against two recorded ones, as a sequence and as a mapping, and two
  entries of a mapping against one recorded value.
\<close>

theorem real_indications_length_witness:
  "ATTR_INCREMENTAL (sample_call (IndList [5, 3, 7]) True)
   \<and> get_real_indications (sample_meter ''M1'' [Some 100, Some 50] [None, None])
       (sample_call (IndList [5, 3, 7]) True) = IndTuple [105, 53]
   \<and> get_real_indications (sample_meter ''M1'' [Some 100, Some 50] [None, None])
       (sample_call (IndList [5, 3]) True) = IndTuple [105, 53]
   \<and> (\<exists>vs. get_real_indications (sample_meter ''M1'' [Some 100, Some 50] [None, None])
              (sample_call (IndDict [(1, 5), (2, 3), (3, 7)]) True) = IndTuple vs
            \<and> length vs = 2)
   \<and> (\<exists>vs. get_real_indications (sample_meter ''M1'' [Some 100] [None])
              (sample_call (IndDict [(1, 5), (2, 3)]) True) = IndTuple vs
            \<and> length vs = 1)"
  using
    real_indications_length [of "sample_call (IndList [5, 3, 7]) True"
      "sample_meter ''M1'' [Some 100, Some 50] [None, None]"]
    real_indications_length [of "sample_call (IndDict [(1, 5), (2, 3), (3, 7)]) True"
      "sample_meter ''M1'' [Some 100, Some 50] [None, None]"]
    real_indications_length [of "sample_call (IndDict [(1, 5), (2, 3)]) True"
      "sample_meter ''M1'' [Some 100] [None]"]
  by (simp add: sample_meter_def sample_call_def get_real_indications_def zip3_def
        s_or_l_or_0_def py_or_def truthy_def)



subsection \<open>Failure of a cycle\<close>

lemma authenticate_fails: "fst (authenticate api cfg utcnow) = (\<not> session_fails api cfg utcnow)"
  by (auto simp: authenticate_def session_fails_def split: option.splits)

lemma authenticate_events: "filter account_event (snd (authenticate api cfg utcnow)) = []"
  by (auto simp: authenticate_def account_event_def authentication_error_def split: option.splits)

lemma process_meters_Some:
  "meters_raise cfg (code, acc) = Some err \<Longrightarrow> process_meters cfg code acc r = Inl err"
  by (cases r) (auto simp: process_meters_def meters_raise_def Let_def split: sum.splits prod.splits)

lemma process_meters_None:
  "meters_raise cfg (code, acc) = None \<Longrightarrow> \<exists>r'. process_meters cfg code acc r = Inr r'"
  by (cases r) (auto simp: process_meters_def meters_raise_def Let_def split: sum.splits prod.splits)

lemma process_account_Some:
  "meters_raise cfg a = Some err \<Longrightarrow> process_account cfg a st = Inl err"
  by (cases a) (simp add: process_account_def process_meters_Some split: prod.splits)

lemma process_account_None:
  assumes "meters_raise cfg a = None"
  shows "\<exists>st'. process_account cfg a st = Inr st'"
proof -
  obtain code acc where a: "a = (code, acc)" by (cases a)
  obtain is_new ent st1 where l: "lookup_account code acc st = (is_new, ent, st1)"
    by (cases "lookup_account code acc st") auto
  from assms a obtain r' where "process_meters cfg code acc (ent, st1) = Inr r'"
    using process_meters_None by blast
  with a l show ?thesis by (simp add: process_account_def)
qed

lemma run_accounts_returns:
  "\<forall>a \<in> set accs. meters_raise cfg a = None \<Longrightarrow> \<exists>st'. run_accounts cfg accs st = Inr st'"
proof (induction accs arbitrary: st)
  case Nil
  then show ?case by simp
next
  case (Cons a accs)
  then obtain st1 where "process_account cfg a st = Inr st1"
    using process_account_None [of cfg a st] by auto
  with Cons show ?case by auto
qed

lemma entity_updater_no_api:
  "map_of (DATA_API_OBJECTS h) entry_id = None \<Longrightarrow>
     entity_updater h entry_id cfg utcnow = Inr (ReturnFalse, h, [])"
  by (simp add: entity_updater_def)

lemma entity_updater_session_fails:
  assumes "map_of (DATA_API_OBJECTS h) entry_id = Some api" "session_fails api cfg utcnow"
  shows "entity_updater h entry_id cfg utcnow = Inr (ReturnFalse, h, snd (authenticate api cfg utcnow))"
proof -
  obtain b evs where a: "authenticate api cfg utcnow = (b, evs)"
    by (cases "authenticate api cfg utcnow")
  with assms(2) have "\<not> b" using authenticate_fails [of api cfg utcnow] by simp
  with a assms(1) show ?thesis by (simp add: entity_updater_def)
qed

lemma entity_updater_listing_fails:
  assumes "map_of (DATA_API_OBJECTS h) entry_id = Some api" "\<not> session_fails api cfg utcnow"
    and "get_accounts api = Inl e"
  shows "entity_updater h entry_id cfg utcnow =
           Inr (ReturnFalse, h,
                snd (authenticate api cfg utcnow) @ [ApiGetAccounts, accounts_error e])"
proof -
  obtain b evs where a: "authenticate api cfg utcnow = (b, evs)"
    by (cases "authenticate api cfg utcnow")
  with assms(2) have "b" using authenticate_fails [of api cfg utcnow] by simp
  with a assms(1,3) show ?thesis by (simp add: entity_updater_def)
qed

lemma entity_updater_runs:
  assumes "map_of (DATA_API_OBJECTS h) entry_id = Some api" "\<not> session_fails api cfg utcnow"
    and "get_accounts api = Inr accounts"
  shows "entity_updater h entry_id cfg utcnow =
           (case run_accounts cfg accounts (initial_state h entry_id (snd (authenticate api cfg utcnow))) of
              Inl err \<Rightarrow> Inl err
            | Inr st \<Rightarrow> finish h entry_id cfg st)"
proof -
  obtain b evs where a: "authenticate api cfg utcnow = (b, evs)"
    by (cases "authenticate api cfg utcnow")
  with assms(2) have "b" using authenticate_fails [of api cfg utcnow] by simp
  with a assms(1,3) show ?thesis
    by (simp add: entity_updater_def)
qed

lemma entity_updater_fails_iff:
  "(\<exists>h' evs. entity_updater h entry_id cfg utcnow = Inr (ReturnFalse, h', evs)) \<longleftrightarrow>
     (case map_of (DATA_API_OBJECTS h) entry_id of
        None \<Rightarrow> True
      | Some api \<Rightarrow> session_fails api cfg utcnow \<or> isl (get_accounts api))"
proof (cases "map_of (DATA_API_OBJECTS h) entry_id")
  case None
  then show ?thesis by (simp add: entity_updater_no_api)
next
  case (Some api)
  show ?thesis
  proof (cases "session_fails api cfg utcnow")
    case True
    with Some show ?thesis by (simp add: entity_updater_session_fails)
  next
    case False
    show ?thesis
    proof (cases "get_accounts api")
      case (Inl e)
      with Some False show ?thesis by (simp add: entity_updater_listing_fails)
    next
      case (Inr accounts)
      with Some False show ?thesis
        by (auto simp: entity_updater_runs finish_def split: sum.splits option.splits)
    qed
  qed
qed



subsection \<open>The events of a cycle\<close>

lemma remove_loop_trace: "trace (snd (remove_loop cs (mes, st))) = trace st"
  by (induction cs arbitrary: mes st) (auto split: option.splits)

lemma upsert_loop_trace: "\<exists>evs. trace (snd (upsert_loop ms (mes, st))) = trace st @ evs"
proof (induction ms arbitrary: mes st)
  case Nil
  then show ?case by simp
next
  case (Cons a ms)
  obtain c m where a: "a = (c, m)" by (cases a)
  show ?case
  proof (cases "map_of mes c")
    case None
    let ?e = "\<lparr>uid = next_uid st, entity_id = None, meter = m\<rparr>"
    let ?st = "st\<lparr>new_meters := AList.update c ?e (new_meters st),
                  tasks := tasks st @ [AsyncUpdate (uid ?e)],
                  next_uid := Suc (next_uid st)\<rparr>"
    from Cons [of "AList.update c ?e mes" ?st]
    obtain evs where "trace (snd (upsert_loop ms (AList.update c ?e mes, ?st))) = trace st @ evs"
      by auto
    with None a show ?thesis by (simp add: Let_def)
  next
    case (Some e)
    from Cons [of "AList.update c (e\<lparr>meter := m\<rparr>) mes"
                  "st\<lparr>trace := trace st @ [ScheduleUpdateHaState (uid e)]\<rparr>"]
    obtain evs where "trace (snd (upsert_loop ms (AList.update c (e\<lparr>meter := m\<rparr>) mes,
                        st\<lparr>trace := trace st @ [ScheduleUpdateHaState (uid e)]\<rparr>)))
                      = trace st @ ScheduleUpdateHaState (uid e) # evs"
      by auto
    with Some a show ?thesis by simp
  qed
qed

lemma diff_meters_trace: "\<exists>evs. trace (snd (diff_meters old meters st)) = trace st @ evs"
proof (cases old)
  case None
  then show ?thesis using upsert_loop_trace [of meters "[]" st] by (simp add: diff_meters_def)
next
  case (Some mes)
  obtain mes0 st0 where r: "remove_loop (stale_codes mes meters) (mes, st) = (mes0, st0)"
    by (cases "remove_loop (stale_codes mes meters) (mes, st)")
  then have "trace st0 = trace st"
    using remove_loop_trace [of "stale_codes mes meters" mes st] by simp
  with Some r show ?thesis using upsert_loop_trace [of meters mes0 st0] by (simp add: diff_meters_def)
qed

lemma process_meters_trace:
  assumes "process_meters cfg code acc (ent, st) = Inr (ent', st')"
  shows "\<exists>evs. trace st' = trace st @ GetMeters code # evs"
proof (cases "get_meters acc")
  case (Inl e)
  with assms show ?thesis by (auto simp: process_meters_def Let_def)
next
  case (Inr fetched)
  with assms obtain meters where f: "filter_meters cfg code fetched = Inr meters"
    by (auto simp: process_meters_def Let_def split: sum.splits)
  obtain evs where
    "trace (snd (diff_meters (meter_entities ent) meters (st\<lparr>trace := trace st @ [GetMeters code]\<rparr>)))
       = trace (st\<lparr>trace := trace st @ [GetMeters code]\<rparr>) @ evs"
    using diff_meters_trace by blast
  with assms Inr f show ?thesis
    by (auto simp: process_meters_def Let_def split: prod.splits)
qed

lemma process_meters_failed:
  "get_meters acc = Inl e \<Longrightarrow>
     process_meters cfg code acc (ent, st)
       = Inr (ent, st\<lparr>trace := trace st @ [GetMeters code, meters_error e]\<rparr>)"
  by (simp add: process_meters_def Let_def)

lemma process_invoice_trace:
  assumes "process_invoice cfg code acc (ent, st) = (ent', st')"
  shows "\<exists>evs. trace st' = trace st @ evs \<and>
           (\<not> skip_invoice cfg code \<longrightarrow> GetLastInvoice code \<in> set evs) \<and>
           (\<forall>e. \<not> skip_invoice cfg code \<and> get_last_invoice acc = Inl e \<longrightarrow> invoices_error e \<in> set evs)"
  using assms
  by (auto simp: process_invoice_def Let_def split: if_splits sum.splits option.splits)

lemma lookup_account_trace:
  "lookup_account code acc st = (is_new, ent, st1) \<Longrightarrow> \<exists>evs. trace st1 = trace st @ evs"
  by (auto simp: lookup_account_def Let_def split: option.splits)

lemma store_account_trace: "trace (store_account is_new code (ent, st)) = trace st"
  by (simp add: store_account_def)

lemma process_account_trace:
  assumes "process_account cfg (code, acc) st = Inr st'"
  shows "\<exists>evs. trace st' = trace st @ evs \<and> GetMeters code \<in> set evs \<and>
           (\<forall>e. get_meters acc = Inl e \<longrightarrow> meters_error e \<in> set evs) \<and>
           (\<not> skip_invoice cfg code \<longrightarrow> GetLastInvoice code \<in> set evs) \<and>
           (\<forall>e. \<not> skip_invoice cfg code \<and> get_last_invoice acc = Inl e \<longrightarrow> invoices_error e \<in> set evs)"
proof -
  obtain is_new ent st1 where l: "lookup_account code acc st = (is_new, ent, st1)"
    by (cases "lookup_account code acc st") auto
  with assms obtain ent2 st2 where m: "process_meters cfg code acc (ent, st1) = Inr (ent2, st2)"
    by (auto simp: process_account_def split: sum.splits)
  obtain ent3 st3 where i: "process_invoice cfg code acc (ent2, st2) = (ent3, st3)"
    by (cases "process_invoice cfg code acc (ent2, st2)")
  from assms l m i have st': "st' = store_account is_new code (ent3, st3)"
    by (simp add: process_account_def)
  from l obtain evs1 where e1: "trace st1 = trace st @ evs1"
    using lookup_account_trace by blast
  from m obtain evs2 where e2: "trace st2 = trace st1 @ GetMeters code # evs2"
    using process_meters_trace by blast
  have e2': "\<forall>e. get_meters acc = Inl e \<longrightarrow> meters_error e \<in> set evs2"
  proof (intro allI impI)
    fix e assume "get_meters acc = Inl e"
    with m have "st2 = st1\<lparr>trace := trace st1 @ [GetMeters code, meters_error e]\<rparr>"
      by (simp add: process_meters_failed)
    with e2 show "meters_error e \<in> set evs2" by auto
  qed
  from i obtain evs3 where e3: "trace st3 = trace st2 @ evs3"
    "\<not> skip_invoice cfg code \<longrightarrow> GetLastInvoice code \<in> set evs3"
    "\<forall>e. \<not> skip_invoice cfg code \<and> get_last_invoice acc = Inl e \<longrightarrow> invoices_error e \<in> set evs3"
    using process_invoice_trace by blast
  have "trace st' = trace st @ (evs1 @ GetMeters code # evs2 @ evs3)"
    using st' e1 e2 e3(1) by (simp add: store_account_trace)
  moreover have "GetMeters code \<in> set (evs1 @ GetMeters code # evs2 @ evs3)" by simp
  ultimately show ?thesis using e2' e3(2,3) by (intro exI [of _ "evs1 @ GetMeters code # evs2 @ evs3"]) auto
qed

lemma handled_mono: "handled cfg a evs \<Longrightarrow> set evs \<subseteq> set evs' \<Longrightarrow> handled cfg a evs'"
  by (cases a) (auto simp: handled_def split: sum.splits)

lemma process_account_handled:
  assumes "process_account cfg a st = Inr st'"
  shows "\<exists>evs. trace st' = trace st @ evs \<and> handled cfg a evs"
proof -
  obtain code acc where a: "a = (code, acc)" by (cases a)
  with assms obtain evs where "trace st' = trace st @ evs" "GetMeters code \<in> set evs"
    "\<forall>e. get_meters acc = Inl e \<longrightarrow> meters_error e \<in> set evs"
    "\<not> skip_invoice cfg code \<longrightarrow> GetLastInvoice code \<in> set evs"
    "\<forall>e. \<not> skip_invoice cfg code \<and> get_last_invoice acc = Inl e \<longrightarrow> invoices_error e \<in> set evs"
    using process_account_trace by blast
  then show ?thesis using a by (intro exI [of _ evs]) (auto simp: handled_def split: sum.splits)
qed

lemma run_accounts_handled:
  assumes "run_accounts cfg accs st = Inr st'"
  shows "\<exists>evs. trace st' = trace st @ evs \<and> (\<forall>a \<in> set accs. handled cfg a evs)"
  using assms
proof (induction accs arbitrary: st)
  case Nil
  then show ?case by simp
next
  case (Cons a accs)
  then obtain st1 where s1: "process_account cfg a st = Inr st1" "run_accounts cfg accs st1 = Inr st'"
    by (auto split: sum.splits)
  from s1(1) obtain evs1 where e1: "trace st1 = trace st @ evs1" "handled cfg a evs1"
    using process_account_handled by blast
  from Cons.IH [OF s1(2)] obtain evs2 where
    e2: "trace st' = trace st1 @ evs2" "\<forall>b \<in> set accs. handled cfg b evs2"
    by blast
  have "handled cfg a (evs1 @ evs2)" using e1(2) handled_mono by fastforce
  moreover have "\<forall>b \<in> set accs. handled cfg b (evs1 @ evs2)"
    using e2(2) handled_mono by fastforce
  ultimately show ?case using e1(1) e2(1) by (intro exI [of _ "evs1 @ evs2"]) simp
qed



subsection \<open>The new meter entities of a cycle\<close>

lemma meters_proper_no_raise: "meters_proper cfg a \<Longrightarrow> meters_raise cfg a = None"
  by (cases a) (auto simp: meters_proper_def meters_raise_def split: sum.splits)

lemma format_dict_None: "\<forall>(c, e) \<in> set d. name e = None \<Longrightarrow> format_dict name d = None"
  by (induction d) auto

lemma meter_name_backed:
  "format_error [''code''] t = None \<Longrightarrow> is_meter (meter e) \<Longrightarrow> meter_name t e = None"
  by (simp add: meter_name_def is_meter_def split: pyobj.splits)

lemma update_backed:
  "list_all (\<lambda>(c, e). is_meter (meter e)) nm \<Longrightarrow> is_meter (meter e) \<Longrightarrow>
     list_all (\<lambda>(c, e). is_meter (meter e)) (AList.update k e nm)"
  by (induction nm) auto

lemma remove_loop_new_meters: "new_meters (snd (remove_loop cs (mes, st))) = new_meters st"
  by (induction cs arbitrary: mes st) (auto split: option.splits)

lemma upsert_loop_backed:
  "list_all (\<lambda>(k, obj). is_meter obj) ms \<Longrightarrow>
   list_all (\<lambda>(c, e). is_meter (meter e)) (new_meters st) \<Longrightarrow>
     list_all (\<lambda>(c, e). is_meter (meter e)) (new_meters (snd (upsert_loop ms (mes, st))))"
proof (induction ms arbitrary: mes st)
  case Nil
  then show ?case by simp
next
  case (Cons a ms)
  obtain c m where a: "a = (c, m)" by (cases a)
  with Cons.prems(1) have m: "is_meter m" and rest: "list_all (\<lambda>(k, obj). is_meter obj) ms"
    by simp_all
  show ?case
  proof (cases "map_of mes c")
    case None
    let ?e = "\<lparr>uid = next_uid st, entity_id = None, meter = m\<rparr>"
    let ?stR = "st\<lparr>new_meters := AList.update c ?e (new_meters st),
                  tasks := tasks st @ [AsyncUpdate (uid ?e)],
                  next_uid := Suc (next_uid st)\<rparr>"
    from Cons.prems(2) m have "list_all (\<lambda>(c, e). is_meter (meter e)) (new_meters ?stR)"
      by (simp add: update_backed)
    from Cons.IH [OF rest this, of "AList.update c ?e mes"] None a show ?thesis
      by (simp add: Let_def)
  next
    case (Some e)
    let ?stR = "st\<lparr>trace := trace st @ [ScheduleUpdateHaState (uid e)]\<rparr>"
    from Cons.prems(2) have "list_all (\<lambda>(c, e). is_meter (meter e)) (new_meters ?stR)" by simp
    from Cons.IH [OF rest this, of "AList.update c (e\<lparr>meter := m\<rparr>) mes"] Some a show ?thesis
      by simp
  qed
qed

lemma diff_meters_backed:
  assumes "list_all (\<lambda>(k, obj). is_meter obj) meters"
    and "list_all (\<lambda>(c, e). is_meter (meter e)) (new_meters st)"
  shows "list_all (\<lambda>(c, e). is_meter (meter e)) (new_meters (snd (diff_meters old meters st)))"
proof (cases old)
  case None
  with upsert_loop_backed [OF assms, of "[]"] show ?thesis by (simp add: diff_meters_def)
next
  case (Some mes)
  obtain kept stR where r: "remove_loop (stale_codes mes meters) (mes, st) = (kept, stR)"
    by (cases "remove_loop (stale_codes mes meters) (mes, st)")
  with remove_loop_new_meters [of "stale_codes mes meters" mes st]
  have "new_meters stR = new_meters st" by simp
  with assms(2) have "list_all (\<lambda>(c, e). is_meter (meter e)) (new_meters stR)" by simp
  from upsert_loop_backed [OF assms(1) this, of kept] Some r show ?thesis
    by (simp add: diff_meters_def)
qed

lemma process_meters_backed:
  assumes "process_meters cfg code acc (ent, st) = Inr (ent', st')"
    and "meters_proper cfg (code, acc)"
    and "list_all (\<lambda>(c, e). is_meter (meter e)) (new_meters st)"
  shows "list_all (\<lambda>(c, e). is_meter (meter e)) (new_meters st')"
proof (cases "get_meters acc")
  case (Inl e)
  with assms(1,3) show ?thesis by (auto simp: process_meters_def Let_def)
next
  case (Inr fetched)
  with assms(2) obtain meters where f: "filter_meters cfg code fetched = Inr meters"
    and p: "list_all (\<lambda>(k, obj). is_meter obj) meters"
    by (auto simp: meters_proper_def split: sum.splits)
  let ?stR = "st\<lparr>trace := trace st @ [GetMeters code]\<rparr>"
  from assms(3) have "list_all (\<lambda>(c, e). is_meter (meter e)) (new_meters ?stR)" by simp
  from diff_meters_backed [OF p this, of "meter_entities ent"] assms(1) Inr f show ?thesis
    by (auto simp: process_meters_def Let_def split: prod.splits)
qed

lemma process_invoice_new_meters:
  "process_invoice cfg code acc (ent, st) = (ent', st') \<Longrightarrow> new_meters st' = new_meters st"
  by (auto simp: process_invoice_def Let_def split: if_splits sum.splits option.splits)

lemma process_account_backed:
  assumes "process_account cfg (code, acc) st = Inr st'"
    and "meters_proper cfg (code, acc)"
    and "list_all (\<lambda>(c, e). is_meter (meter e)) (new_meters st)"
  shows "list_all (\<lambda>(c, e). is_meter (meter e)) (new_meters st')"
proof -
  obtain is_new ent st1 where l: "lookup_account code acc st = (is_new, ent, st1)"
    by (cases "lookup_account code acc st") auto
  with assms(1) obtain ent2 st2 where m: "process_meters cfg code acc (ent, st1) = Inr (ent2, st2)"
    by (auto simp: process_account_def split: sum.splits)
  obtain ent3 st3 where i: "process_invoice cfg code acc (ent2, st2) = (ent3, st3)"
    by (cases "process_invoice cfg code acc (ent2, st2)")
  from assms(1) l m i have st': "st' = store_account is_new code (ent3, st3)"
    by (simp add: process_account_def)
  from l have "new_meters st1 = new_meters st"
    by (auto simp: lookup_account_def Let_def split: option.splits)
  with assms(3) have "list_all (\<lambda>(c, e). is_meter (meter e)) (new_meters st1)" by simp
  from process_meters_backed [OF m assms(2) this]
  have "list_all (\<lambda>(c, e). is_meter (meter e)) (new_meters st2)" .
  with process_invoice_new_meters [OF i] st' show ?thesis by (simp add: store_account_def)
qed

lemma run_accounts_backed:
  assumes "run_accounts cfg accs st = Inr st'"
    and "\<forall>a \<in> set accs. meters_proper cfg a"
    and "list_all (\<lambda>(c, e). is_meter (meter e)) (new_meters st)"
  shows "list_all (\<lambda>(c, e). is_meter (meter e)) (new_meters st')"
  using assms
proof (induction accs arbitrary: st)
  case Nil
  then show ?case by simp
next
  case (Cons a accs)
  obtain code acc where a: "a = (code, acc)" by (cases a)
  from Cons.prems(1) a obtain st1 where
    s1: "process_account cfg (code, acc) st = Inr st1" and s2: "run_accounts cfg accs st1 = Inr st'"
    by (auto split: sum.splits)
  from Cons.prems(2) a have p: "meters_proper cfg (code, acc)"
    and rest: "\<forall>b \<in> set accs. meters_proper cfg b"
    by simp_all
  from process_account_backed [OF s1 p Cons.prems(3)]
  have "list_all (\<lambda>(c, e). is_meter (meter e)) (new_meters st1)" .
  from Cons.IH [OF s2 rest this] show ?case .
qed

lemma debug_messages_quiet:
  assumes "list_all (\<lambda>(c, e). is_meter (meter e)) (new_meters st)" "names_format cfg"
  shows "debug_messages cfg st = None"
proof -
  from assms have "\<forall>(c, e) \<in> set (new_meters st). meter_name (meter_name_format cfg) e = None"
    by (auto simp: names_format_def list_all_iff meter_name_backed)
  then have 1: "format_dict (meter_name (meter_name_format cfg)) (new_meters st) = None"
    by (rule format_dict_None)
  from assms(2)
  have "\<forall>(c, e) \<in> set (new_accounts st). account_name (account_name_format cfg) e = None"
    by (simp add: names_format_def account_name_def)
  then have 2: "format_dict (account_name (account_name_format cfg)) (new_accounts st) = None"
    by (rule format_dict_None)
  from assms(2)
  have "\<forall>(c, e) \<in> set (new_invoices st). invoice_name (invoice_name_format cfg) e = None"
    by (simp add: names_format_def invoice_name_def)
  then have 3: "format_dict (invoice_name (invoice_name_format cfg)) (new_invoices st) = None"
    by (rule format_dict_None)
  from 1 2 3 show ?thesis by (simp add: debug_messages_def)
qed

lemma finish_returns:
  assumes "list_all (\<lambda>(c, e). is_meter (meter e)) (new_meters st)" "names_format cfg"
  shows "finish h entry_id cfg st
           = Inr (ReturnCounts (length (new_accounts st)) (length (new_meters st))
                    (length (new_invoices st)),
                  h\<lparr>DATA_ENTITIES :=
                       AList.update entry_id (dict_update (created_entities st) (new_accounts st))
                         (DATA_ENTITIES h),
                     uid_counter := next_uid st\<rparr>,
                  trace st @ finish_events st)"
  using debug_messages_quiet [OF assms] by (simp add: finish_def)

lemma run_accounts_proper:
  assumes "\<forall>a \<in> set accs. meters_proper cfg a"
  shows "\<exists>st'. run_accounts cfg accs (initial_state h entry_id evs) = Inr st'
           \<and> list_all (\<lambda>(c, e). is_meter (meter e)) (new_meters st')"
proof -
  from assms have "\<forall>a \<in> set accs. meters_raise cfg a = None"
    by (simp add: meters_proper_no_raise)
  from run_accounts_returns [OF this, of "initial_state h entry_id evs"]
  obtain st' where r: "run_accounts cfg accs (initial_state h entry_id evs) = Inr st'" by blast
  have "list_all (\<lambda>(c, e). is_meter (meter e)) (new_meters (initial_state h entry_id evs))"
    by (simp add: initial_state_def)
  from run_accounts_backed [OF r assms this] r show ?thesis by blast
qed



text \<open>The definitions a concrete run unfolds.\<close>

lemmas cycle_defs =
  entity_updater_def authenticate_def initial_state_def finish_def finish_events_def
  debug_messages_def meter_name_def account_name_def invoice_name_def format_error_def
  process_account_def lookup_account_def store_account_def process_meters_def
  process_invoice_def diff_meters_def stale_codes_def filter_meters_def all_meters_def
  use_meter_filter_def use_invoice_filter_def skip_invoice_def dict_update_def
  meters_error_def invoices_error_def accounts_error_def authentication_error_def
  error_text_def Let_def

lemmas sample_defs =
  sample_hass_def sample_api_def sample_cfg_def sample_account_def sample_meter_def
  sample_call_def

lemma accounts_error_not_account_event: "\<not> account_event (accounts_error e)"
  by (simp add: account_event_def accounts_error_def)

text \<open>
  C7, amended. A cycle returns \<^verbatim>\<open>False\<close> exactly when no client is registered for
  the entry, or session establishment fails, or the account listing fails; it then
  leaves \<^verbatim>\<open>hass.data\<close> as it was and has processed no account. In every other
  cycle, provider failures of the meter and invoice fetches are logged where they occur
  and the cycle returns its counts, as long as no exception of Python itself leaves it:
  the allow-list step of each account hands meters on (the account is in a configured
  allow-list, and the step neither raises nor binds a code to a string), and the name
  formats name only fields that the names provide.
\<close>

theorem cycle_failed:
  "((\<exists>h' evs. entity_updater h entry_id cfg utcnow = Inr (ReturnFalse, h', evs))
      \<longleftrightarrow> cycle_fatal h entry_id cfg utcnow)
   \<and> (cycle_fatal h entry_id cfg utcnow \<longrightarrow>
        (\<exists>evs. entity_updater h entry_id cfg utcnow = Inr (ReturnFalse, h, evs)
           \<and> filter account_event evs = []))
   \<and> (\<forall>api accounts.
        map_of (DATA_API_OBJECTS h) entry_id = Some api \<and> \<not> session_fails api cfg utcnow
        \<and> get_accounts api = Inr accounts \<and> (\<forall>a \<in> set accounts. meters_proper cfg a)
        \<and> names_format cfg
        \<longrightarrow> (\<exists>n m i h' evs.
               entity_updater h entry_id cfg utcnow = Inr (ReturnCounts n m i, h', evs)
               \<and> (\<forall>a \<in> set accounts. handled cfg a evs)))"
proof (intro conjI allI impI)
  show "(\<exists>h' evs. entity_updater h entry_id cfg utcnow = Inr (ReturnFalse, h', evs))
          \<longleftrightarrow> cycle_fatal h entry_id cfg utcnow"
    using entity_updater_fails_iff by (simp add: cycle_fatal_def)
next
  assume f: "cycle_fatal h entry_id cfg utcnow"
  show "\<exists>evs. entity_updater h entry_id cfg utcnow = Inr (ReturnFalse, h, evs)
          \<and> filter account_event evs = []"
  proof (cases "map_of (DATA_API_OBJECTS h) entry_id")
    case None
    then show ?thesis by (simp add: entity_updater_no_api)
  next
    case (Some api)
    show ?thesis
    proof (cases "session_fails api cfg utcnow")
      case True
      with Some show ?thesis
        by (simp add: entity_updater_session_fails authenticate_events)
    next
      case False
      with f Some obtain e where "get_accounts api = Inl e"
        by (cases "get_accounts api") (auto simp: cycle_fatal_def)
      with Some False show ?thesis
        by (simp add: entity_updater_listing_fails authenticate_events account_event_def
              accounts_error_def)
    qed
  qed
next
  fix api accounts
  assume a: "map_of (DATA_API_OBJECTS h) entry_id = Some api \<and> \<not> session_fails api cfg utcnow
        \<and> get_accounts api = Inr accounts \<and> (\<forall>a \<in> set accounts. meters_proper cfg a)
        \<and> names_format cfg"
  then have nf: "names_format cfg" by simp
  let ?stI = "initial_state h entry_id (snd (authenticate api cfg utcnow))"
  from a have "\<forall>a \<in> set accounts. meters_proper cfg a" by simp
  from run_accounts_proper [OF this, of h entry_id "snd (authenticate api cfg utcnow)"]
  obtain st where r: "run_accounts cfg accounts ?stI = Inr st"
    and b: "list_all (\<lambda>(c, e). is_meter (meter e)) (new_meters st)"
    by blast
  from run_accounts_handled [OF r]
  obtain evs where e: "trace st = trace ?stI @ evs" "\<forall>a \<in> set accounts. handled cfg a evs"
    by blast
  have "\<forall>a \<in> set accounts. handled cfg a (trace st @ finish_events st)"
  proof
    fix a assume "a \<in> set accounts"
    with e(2) have "handled cfg a evs" by blast
    moreover have "set evs \<subseteq> set (trace st @ finish_events st)" using e(1) by auto
    ultimately show "handled cfg a (trace st @ finish_events st)" by (rule handled_mono)
  qed
  with a r show "\<exists>n m i h' evs.
               entity_updater h entry_id cfg utcnow = Inr (ReturnCounts n m i, h', evs)
               \<and> (\<forall>a \<in> set accounts. handled cfg a evs)"
    by (simp add: entity_updater_runs finish_returns [OF b nf])
qed



text \<open>A refused login is fatal; a failed meter fetch is not.\<close>

theorem cycle_failed_witness:
  "cycle_fatal (sample_hass [failing_account]\<lparr>DATA_API_OBJECTS :=
       [(''entry'', (sample_api [failing_account])\<lparr>login := Some (MosenergosbytException ''denied'')\<rparr>)]\<rparr>)
     ''entry'' sample_cfg 10
   \<and> \<not> cycle_fatal (sample_hass [failing_account]) ''entry'' sample_cfg 10
   \<and> (\<exists>h' evs. entity_updater (sample_hass [failing_account]) ''entry'' sample_cfg 10
                  = Inr (ReturnCounts 1 0 1, h', evs))"
  using cycle_failed [of "sample_hass [failing_account]" "''entry''" sample_cfg 10]
  by (simp add: cycle_fatal_def session_fails_def meters_proper_def names_format_def sample_defs
        failing_account_def cycle_defs)

text \<open>
  C7 as stated leaves out the guard at the head of the function: without a client for
  the entry the cycle returns \<^verbatim>\<open>False\<close> though no login and no listing was tried.
\<close>

theorem cycle_failed_without_api:
  "entity_updater ((sample_hass [])\<lparr>DATA_API_OBJECTS := []\<rparr>) ''entry'' sample_cfg 10
     = Inr (ReturnFalse, (sample_hass [])\<lparr>DATA_API_OBJECTS := []\<rparr>, [])
   \<and> \<not> spec_cycle_fatal ((sample_hass [])\<lparr>DATA_API_OBJECTS := []\<rparr>) ''entry'' sample_cfg 10"
  by (simp add: entity_updater_def spec_cycle_fatal_def sample_hass_def)

subsection \<open>Setup\<close>

lemma entity_updater_frame:
  assumes "entity_updater h entry_id cfg utcnow = Inr (r, h', evs)"
  shows "services h' = services h \<and> DATA_UPDATERS h' = DATA_UPDATERS h
         \<and> DATA_API_OBJECTS h' = DATA_API_OBJECTS h"
  using assms
  by (auto simp: entity_updater_def finish_def split: option.splits prod.splits bool.splits sum.splits)

text \<open>
  C10. When the first cycle returns three zeros, setup returns \<^verbatim>\<open>True\<close> with the
  state the cycle left: the services registered and the periodic triggers are those
  from before, so none is added for the entry.
\<close>

theorem setup_without_entities:
  assumes "entity_updater h entry_id cfg utcnow = Inr (ReturnCounts 0 0 0, h', evs)"
  shows "\<exists>evs'. async_setup_entry h entry_id cfg scan_interval utcnow = Inr (True, h', evs')
           \<and> services h' = services h \<and> DATA_UPDATERS h' = DATA_UPDATERS h"
  using assms entity_updater_frame [OF assms] by (simp add: async_setup_entry_def)

theorem setup_without_entities_witness:
  "entity_updater (sample_hass []) ''entry'' sample_cfg 10
     = Inr (ReturnCounts 0 0 0, (sample_hass [])\<lparr>DATA_ENTITIES := [(''entry'', [])]\<rparr>,
            [ApiLogin, ApiGetAccounts])
   \<and> (\<exists>h' evs'. async_setup_entry (sample_hass []) ''entry'' sample_cfg 60 10 = Inr (True, h', evs')
        \<and> services h' = [] \<and> DATA_UPDATERS h' = [])"
proof -
  have c: "entity_updater (sample_hass []) ''entry'' sample_cfg 10
     = Inr (ReturnCounts 0 0 0, (sample_hass [])\<lparr>DATA_ENTITIES := [(''entry'', [])]\<rparr>,
            [ApiLogin, ApiGetAccounts])"
    by (simp add: sample_defs cycle_defs)
  from setup_without_entities [OF c, of 60] c show ?thesis
    by (auto simp: sample_hass_def)
qed

subsection \<open>A failed meter fetch\<close>









subsection \<open>Runs that depart from the specification\<close>

text \<open>
  C4. With an explicit list of meter codes the comprehension iterates the keys of the
  fetched dictionary and unpacks each key: for the meter code \<^verbatim>\<open>12345\<close>, allowed by the
  list, it raises \<^verbatim>\<open>ValueError\<close>, which leaves the cycle, where the specification
  keeps the meter.
\<close>

theorem explicit_meter_filter_raises:
  "filter_meters (sample_cfg\<lparr>CONF_ACCOUNTS := Some [(''Y'', MeterCodes [''12345''])]\<rparr>) ''Y''
       [(''12345'', sample_meter ''12345'' [Some 100] [None])] = Inl ValueError
   \<and> spec_filter_meters [''12345''] [(''12345'', sample_meter ''12345'' [Some 100] [None])]
       = [(''12345'', MeterObj (sample_meter ''12345'' [Some 100] [None]))]
   \<and> entity_updater (sample_hass [metered_account]) ''entry''
         (sample_cfg\<lparr>CONF_ACCOUNTS := Some [(''Y'', MeterCodes [''12345''])]\<rparr>) 10 = Inl ValueError"
  by (simp add: sample_defs metered_account_def cycle_defs spec_filter_meters_def)

text \<open>
  C5. With \<^verbatim>\<open>CONF_INVOICES\<close> set to \<^verbatim>\<open>False\<close> the guard \<^verbatim>\<open>if use_invoice_filter\<close>
  is not entered, so the test \<^verbatim>\<open>invoice_filter is False\<close> is never reached: the invoice
  is fetched and its entity created.
\<close>

theorem invoices_false_still_fetched:
  "skip_invoice (sample_cfg\<lparr>CONF_INVOICES := Some (InvoicesBool False)\<rparr>) ''X'' = False
   \<and> entity_updater (sample_hass [failing_account]) ''entry''
         (sample_cfg\<lparr>CONF_INVOICES := Some (InvoicesBool False)\<rparr>) 10
       = Inr (ReturnCounts 1 0 1,
              (sample_hass [failing_account])
                \<lparr>DATA_ENTITIES :=
                   [(''entry'',
                     [(''X'', \<lparr>uid = 0, entity_id = None, account = snd failing_account,
                              meter_entities = None,
                              invoice_entity = Some \<lparr>uid = 1, entity_id = None,
                                  invoice = \<lparr>invoice_id = ''i1'', total = 5\<rparr>\<rparr>\<rparr>)])],
                 uid_counter := 2\<rparr>,
              [ApiLogin, ApiGetAccounts, GetMeters ''X'',
               meters_error (MosenergosbytException ''timeout''), GetLastInvoice ''X'',
               AsyncioWait [AsyncUpdate 0, AsyncUpdate 1], AddEntities [0], AddEntities [1]])"
  by (simp add: sample_defs failing_account_def cycle_defs)

text \<open>
  C8. After a cycle in which the meter fetch of a new account failed, the account's
  entity holds no meter dictionary; the scan for a meter then raises
  \<^verbatim>\<open>AttributeError\<close> instead of reporting that no meter matches.
\<close>

theorem unknown_meter_after_failed_fetch:
  "(\<exists>evs. entity_updater (sample_hass [failing_account]) ''entry'' sample_cfg 10
            = Inr (ReturnCounts 1 0 1, unfetched_hass, evs))
   \<and> find_meter_entity unfetched_hass (sample_call (IndList [1]) False) = Inl AttributeError
   \<and> async_push_indications unfetched_hass (sample_call (IndList [1]) False) = Inl AttributeError
   \<and> async_calculate_indications unfetched_hass (sample_call (IndList [1]) False)
       = Inl AttributeError"
  by (simp add: unfetched_hass_def sample_defs failing_account_def cycle_defs
        find_meter_entity_def async_push_indications_def async_calculate_indications_def)



text \<open>
  The other outcome of unpacking the keys: the code \<^verbatim>\<open>ab\<close> with \<^verbatim>\<open>a\<close> in the list
  passes the filter, which binds \<^verbatim>\<open>a\<close> to the string \<^verbatim>\<open>b\<close>; the entity created
  for it has no meter behind it, and building the debug message of line 219 raises
  \<^verbatim>\<open>AttributeError\<close> at the end of the cycle.
\<close>

lemma string_backed_meter_raises:
  "filter_meters (sample_cfg\<lparr>CONF_ACCOUNTS := Some [(''X'', AllMeters), (''Y'', MeterCodes [''a''])]\<rparr>)
       ''Y'' [(''ab'', sample_meter ''ab'' [Some 100] [None])] = Inr [(''a'', StrObj ''b'')]
   \<and> meters_raise (sample_cfg\<lparr>CONF_ACCOUNTS := Some [(''X'', AllMeters), (''Y'', MeterCodes [''a''])]\<rparr>)
       short_code_account = None
   \<and> \<not> meters_proper (sample_cfg\<lparr>CONF_ACCOUNTS := Some [(''X'', AllMeters), (''Y'', MeterCodes [''a''])]\<rparr>)
       short_code_account
   \<and> entity_updater (sample_hass [failing_account, short_code_account]) ''entry''
       (sample_cfg\<lparr>CONF_ACCOUNTS := Some [(''X'', AllMeters), (''Y'', MeterCodes [''a''])]\<rparr>) 10
       = Inl AttributeError"
  by (simp add: meters_raise_def meters_proper_def is_meter_def sample_defs failing_account_def
        short_code_account_def cycle_defs)



text \<open>
  A meter name format with a field that the name does not provide: the first cycle
  that creates a meter entity ends in \<^verbatim>\<open>KeyError\<close>, again at line 219.
\<close>

lemma unknown_field_raises:
  "\<not> names_format (sample_cfg\<lparr>meter_name_format := [Text ''Meter '', Field ''serial'']\<rparr>)
   \<and> entity_updater (sample_hass [metered_account]) ''entry''
       (sample_cfg\<lparr>meter_name_format := [Text ''Meter '', Field ''serial'']\<rparr>) 10 = Inl KeyError"
  by (simp add: names_format_def sample_defs metered_account_def cycle_defs)



subsection \<open>Reconciling the meters of an account\<close>

lemma removal_tasks_delete:
  assumes "c \<notin> set cs"
  shows "removal_tasks cs (AList.delete c mes) = removal_tasks cs mes"
proof -
  have "map_of (AList.delete c mes) c' = map_of mes c'" if "c' \<in> set cs" for c'
  proof -
    from that assms have "c' \<noteq> c" by auto
    then show ?thesis by simp
  qed
  then show ?thesis unfolding removal_tasks_def by (simp cong: map_cong)
qed

lemma filter_delete:
  "filter (\<lambda>(k, e). k \<notin> set cs) (AList.delete c mes)
     = filter (\<lambda>(k, e). k \<noteq> c \<and> k \<notin> set cs) mes"
  by (induction mes) (auto simp: AList.delete_eq)

lemma filter_absent_key:
  "map_of mes c = None \<Longrightarrow>
     filter (\<lambda>(k, e). k \<noteq> c \<and> k \<notin> set cs) mes = filter (\<lambda>(k, e). k \<notin> set cs) mes"
  by (induction mes) (auto split: if_splits)

lemma remove_loop_eq:
  "distinct cs \<Longrightarrow>
     remove_loop cs (mes, st)
       = (filter (\<lambda>(k, e). k \<notin> set cs) mes, st\<lparr>tasks := tasks st @ removal_tasks cs mes\<rparr>)"
proof (induction cs arbitrary: mes st)
  case Nil
  then show ?case by (simp add: removal_tasks_def)
next
  case (Cons c cs)
  show ?case
  proof (cases "map_of mes c")
    case None
    with Cons show ?thesis by (simp add: filter_absent_key removal_tasks_def)
  next
    case (Some e)
    with Cons show ?thesis
      by (simp add: filter_delete removal_tasks_delete) (simp add: removal_tasks_def)
  qed
qed

lemma map_of_filter_keys:
  "map_of (filter (\<lambda>(k, e). P k) mes) c = (if P c then map_of mes c else None)"
  by (induction mes) auto

lemma set_stale_codes:
  "set (stale_codes mes meters) = fst ` set mes - fst ` set meters"
  by (auto simp: stale_codes_def)

lemma distinct_stale_codes: "distinct (stale_codes mes meters)"
  by (simp add: stale_codes_def)

lemma removal_tasks_mem:
  "c \<in> set cs \<Longrightarrow> map_of mes c = Some e \<Longrightarrow> AsyncRemove (uid e) \<in> set (removal_tasks cs mes)"
  by (force simp: removal_tasks_def)

lemma removal_tasks_only: "AsyncUpdate u \<notin> set (removal_tasks cs mes)"
  by (auto simp: removal_tasks_def split: option.splits)



lemma upsert_loop_tasks:
  "next_uid st \<le> next_uid (snd (upsert_loop ms (mes, st))) \<and>
   tasks (snd (upsert_loop ms (mes, st)))
     = tasks st @ map AsyncUpdate [next_uid st ..< next_uid (snd (upsert_loop ms (mes, st)))]"
proof (induction ms arbitrary: mes st)
  case Nil
  then show ?case by simp
next
  case (Cons a ms)
  obtain c m where a: "a = (c, m)" by (cases a)
  show ?case
  proof (cases "map_of mes c")
    case None
    let ?e = "\<lparr>uid = next_uid st, entity_id = None, meter = m\<rparr>"
    let ?st = "st\<lparr>new_meters := AList.update c ?e (new_meters st),
                  tasks := tasks st @ [AsyncUpdate (uid ?e)],
                  next_uid := Suc (next_uid st)\<rparr>"
    let ?r = "upsert_loop ms (AList.update c ?e mes, ?st)"
    from Cons [of ?st "AList.update c ?e mes"]
    have le: "Suc (next_uid st) \<le> next_uid (snd ?r)"
      and ts: "tasks (snd ?r)
                = tasks st @ AsyncUpdate (next_uid st) # map AsyncUpdate [Suc (next_uid st) ..< next_uid (snd ?r)]"
      by simp_all
    from le have "[next_uid st ..< next_uid (snd ?r)]
                    = next_uid st # [Suc (next_uid st) ..< next_uid (snd ?r)]"
      by (simp add: upt_conv_Cons)
    with le ts None a show ?thesis by (simp add: Let_def)
  next
    case (Some e)
    with Cons [of "st\<lparr>trace := trace st @ [ScheduleUpdateHaState (uid e)]\<rparr>"
                  "AList.update c (e\<lparr>meter := m\<rparr>) mes"] a
    show ?thesis by simp
  qed
qed

lemma upsert_loop_untouched:
  "c \<notin> fst ` set ms \<Longrightarrow>
     map_of (fst (upsert_loop ms (mes, st))) c = map_of mes c \<and>
     map_of (new_meters (snd (upsert_loop ms (mes, st)))) c = map_of (new_meters st) c"
proof (induction ms arbitrary: mes st)
  case Nil
  then show ?case by simp
next
  case (Cons a ms)
  obtain c0 m where a: "a = (c0, m)" by (cases a)
  with Cons.prems have ne: "c0 \<noteq> c" and notin: "c \<notin> fst ` set ms" by auto
  show ?case
  proof (cases "map_of mes c0")
    case None
    let ?e = "\<lparr>uid = next_uid st, entity_id = None, meter = m\<rparr>"
    let ?st = "st\<lparr>new_meters := AList.update c0 ?e (new_meters st),
                  tasks := tasks st @ [AsyncUpdate (uid ?e)],
                  next_uid := Suc (next_uid st)\<rparr>"
    from Cons.IH [OF notin, of "AList.update c0 ?e mes" ?st] ne None a
    show ?thesis by (simp add: Let_def update_conv')
  next
    case (Some e)
    from Cons.IH [OF notin, of "AList.update c0 (e\<lparr>meter := m\<rparr>) mes"
                     "st\<lparr>trace := trace st @ [ScheduleUpdateHaState (uid e)]\<rparr>"] ne Some a
    show ?thesis by (simp add: update_conv')
  qed
qed


lemma upsert_loop_kept:
  assumes "distinct (map fst ms)" "(c, m) \<in> set ms" "map_of mes c = Some e"
  shows "map_of (fst (upsert_loop ms (mes, st))) c = Some (e\<lparr>meter := m\<rparr>) \<and>
         (\<exists>evs. trace (snd (upsert_loop ms (mes, st))) = trace st @ evs
                \<and> ScheduleUpdateHaState (uid e) \<in> set evs)"
  using assms
proof (induction ms arbitrary: mes st)
  case Nil
  then show ?case by simp
next
  case (Cons a ms)
  obtain c0 m0 where a: "a = (c0, m0)" by (cases a)
  from Cons.prems(1) a have d: "distinct (map fst ms)" and c0: "c0 \<notin> fst ` set ms" by auto
  show ?case
  proof (cases "c0 = c")
    case True
    with Cons.prems(2) a c0 have m0: "m0 = m" by force
    let ?mes = "AList.update c (e\<lparr>meter := m\<rparr>) mes"
    let ?st = "st\<lparr>trace := trace st @ [ScheduleUpdateHaState (uid e)]\<rparr>"
    from c0 True have "c \<notin> fst ` set ms" by simp
    from upsert_loop_untouched [OF this, of ?mes ?st]
    have 1: "map_of (fst (upsert_loop ms (?mes, ?st))) c = Some (e\<lparr>meter := m\<rparr>)"
      by (simp add: update_conv')
    from upsert_loop_trace [of ms ?mes ?st]
    obtain evs where "trace (snd (upsert_loop ms (?mes, ?st)))
                        = trace st @ ScheduleUpdateHaState (uid e) # evs"
      by auto
    then have 2: "\<exists>evs. trace (snd (upsert_loop ms (?mes, ?st))) = trace st @ evs
                    \<and> ScheduleUpdateHaState (uid e) \<in> set evs"
      by (intro exI [of _ "ScheduleUpdateHaState (uid e) # evs"]) simp
    from 1 2 a True m0 Cons.prems(3) show ?thesis by simp
  next
    case False
    with Cons.prems(2) a have mem: "(c, m) \<in> set ms" by auto
    show ?thesis
    proof (cases "map_of mes c0")
      case None
      let ?e = "\<lparr>uid = next_uid st, entity_id = None, meter = m0\<rparr>"
      let ?mes = "AList.update c0 ?e mes"
      let ?st = "st\<lparr>new_meters := AList.update c0 ?e (new_meters st),
                    tasks := tasks st @ [AsyncUpdate (uid ?e)],
                    next_uid := Suc (next_uid st)\<rparr>"
      from False Cons.prems(3) have "map_of ?mes c = Some e" by (simp add: update_conv')
      from Cons.IH [OF d mem this, of ?st] None a show ?thesis by (simp add: Let_def)
    next
      case (Some e0)
      let ?mes = "AList.update c0 (e0\<lparr>meter := m0\<rparr>) mes"
      let ?st = "st\<lparr>trace := trace st @ [ScheduleUpdateHaState (uid e0)]\<rparr>"
      from False Cons.prems(3) have "map_of ?mes c = Some e" by (simp add: update_conv')
      from Cons.IH [OF d mem this, of ?st]
      obtain evs where 1: "map_of (fst (upsert_loop ms (?mes, ?st))) c = Some (e\<lparr>meter := m\<rparr>)"
        and 2: "trace (snd (upsert_loop ms (?mes, ?st)))
                  = trace st @ ScheduleUpdateHaState (uid e0) # evs"
        and 3: "ScheduleUpdateHaState (uid e) \<in> set evs"
        by auto
      from 2 3 have "\<exists>evs. trace (snd (upsert_loop ms (?mes, ?st))) = trace st @ evs
                    \<and> ScheduleUpdateHaState (uid e) \<in> set evs"
        by (intro exI [of _ "ScheduleUpdateHaState (uid e0) # evs"]) simp
      with 1 Some a show ?thesis by simp
    qed
  qed
qed



lemma upsert_loop_new:
  assumes "distinct (map fst ms)" "(c, m) \<in> set ms" "map_of mes c = None"
  shows "\<exists>e. map_of (fst (upsert_loop ms (mes, st))) c = Some e \<and> meter e = m \<and>
             entity_id e = None \<and> next_uid st \<le> uid e \<and>
             uid e < next_uid (snd (upsert_loop ms (mes, st))) \<and>
             map_of (new_meters (snd (upsert_loop ms (mes, st)))) c = Some e"
  using assms
proof (induction ms arbitrary: mes st)
  case Nil
  then show ?case by simp
next
  case (Cons a ms)
  obtain c0 m0 where a: "a = (c0, m0)" by (cases a)
  from Cons.prems(1) a have d: "distinct (map fst ms)" and c0: "c0 \<notin> fst ` set ms" by auto
  show ?case
  proof (cases "c0 = c")
    case True
    with Cons.prems(2) a c0 have m0: "m0 = m" by force
    let ?e = "\<lparr>uid = next_uid st, entity_id = None, meter = m\<rparr>"
    let ?mes = "AList.update c ?e mes"
    let ?st = "st\<lparr>new_meters := AList.update c ?e (new_meters st),
                  tasks := tasks st @ [AsyncUpdate (uid ?e)],
                  next_uid := Suc (next_uid st)\<rparr>"
    from c0 True have "c \<notin> fst ` set ms" by simp
    from upsert_loop_untouched [OF this, of ?mes ?st]
    have 1: "map_of (fst (upsert_loop ms (?mes, ?st))) c = Some ?e"
      and 2: "map_of (new_meters (snd (upsert_loop ms (?mes, ?st)))) c = Some ?e"
      by (simp_all add: update_conv')
    from upsert_loop_tasks [of ?st ms ?mes]
    have 3: "next_uid st < next_uid (snd (upsert_loop ms (?mes, ?st)))" by simp
    from 1 2 3 a True m0 Cons.prems(3) show ?thesis by (simp add: Let_def)
  next
    case False
    with Cons.prems(2) a have mem: "(c, m) \<in> set ms" by auto
    show ?thesis
    proof (cases "map_of mes c0")
      case None
      let ?e = "\<lparr>uid = next_uid st, entity_id = None, meter = m0\<rparr>"
      let ?mes = "AList.update c0 ?e mes"
      let ?st = "st\<lparr>new_meters := AList.update c0 ?e (new_meters st),
                    tasks := tasks st @ [AsyncUpdate (uid ?e)],
                    next_uid := Suc (next_uid st)\<rparr>"
      from False Cons.prems(3) have "map_of ?mes c = None" by (simp add: update_conv')
      from Cons.IH [OF d mem this, of ?st]
      obtain e where "map_of (fst (upsert_loop ms (?mes, ?st))) c = Some e" "meter e = m"
        "entity_id e = None" "Suc (next_uid st) \<le> uid e"
        "uid e < next_uid (snd (upsert_loop ms (?mes, ?st)))"
        "map_of (new_meters (snd (upsert_loop ms (?mes, ?st)))) c = Some e"
        by auto
      with None a show ?thesis by (simp add: Let_def)
    next
      case (Some e0)
      let ?mes = "AList.update c0 (e0\<lparr>meter := m0\<rparr>) mes"
      let ?st = "st\<lparr>trace := trace st @ [ScheduleUpdateHaState (uid e0)]\<rparr>"
      from False Cons.prems(3) have "map_of ?mes c = None" by (simp add: update_conv')
      from Cons.IH [OF d mem this, of ?st] Some a show ?thesis by simp
    qed
  qed
qed

lemma diff_meters_eq:
  "diff_meters old meters st
     = upsert_loop meters
         (filter (\<lambda>(k, e). k \<in> fst ` set meters) (dict_of old),
          st\<lparr>tasks := tasks st @ removal_tasks (stale_codes (dict_of old) meters) (dict_of old)\<rparr>)"
proof (cases old)
  case None
  then show ?thesis by (simp add: diff_meters_def dict_of_def removal_tasks_def stale_codes_def)
next
  case (Some mes)
  have "filter (\<lambda>(k, e). k \<notin> set (stale_codes mes meters)) mes
          = filter (\<lambda>(k, e). k \<in> fst ` set meters) mes"
    by (rule filter_cong) (force simp: set_stale_codes)+
  with Some show ?thesis
    by (simp add: diff_meters_def dict_of_def remove_loop_eq distinct_stale_codes)
qed



lemma meters_comprehension_distinct:
  "meters_comprehension keys fl acc = Inr r \<Longrightarrow> distinct (map fst acc) \<Longrightarrow> distinct (map fst r)"
proof (induction keys arbitrary: acc)
  case Nil
  then show ?case by simp
next
  case (Cons key keys)
  then show ?case
    by (auto simp: distinct_update split: list.splits if_splits)
qed

lemma map_fst_all_meters: "map fst (all_meters fetched) = map fst fetched"
  by (simp add: all_meters_def case_prod_unfold)

lemma filter_meters_distinct:
  assumes "filter_meters cfg code fetched = Inr meters" "distinct (map fst fetched)"
  shows "distinct (map fst meters)"
  using assms meters_comprehension_distinct [of "map fst fetched" _ "[]" meters]
  by (auto simp: filter_meters_def map_fst_all_meters split: if_splits option.splits account_filter.splits)

lemma diff_meters_correct:
  assumes dm: "distinct (map fst meters)"
    and fresh: "\<forall>(c, e) \<in> set (dict_of old). uid e < next_uid st"
    and res: "diff_meters old meters st = (mes', st')"
  shows "\<exists>ts evs.
           tasks st' = tasks st @ ts \<and> trace st' = trace st @ evs
           \<and> (\<forall>c e. map_of (dict_of old) c = Some e \<and> c \<notin> fst ` set meters \<longrightarrow>
                  map_of mes' c = None \<and> AsyncRemove (uid e) \<in> set ts)
           \<and> (\<forall>c m. (c, m) \<in> set meters \<and> map_of (dict_of old) c = None \<longrightarrow>
                  (\<exists>e. map_of mes' c = Some e \<and> meter e = m \<and> next_uid st \<le> uid e
                       \<and> AsyncUpdate (uid e) \<in> set ts \<and> map_of (new_meters st') c = Some e))
           \<and> (\<forall>c m e. (c, m) \<in> set meters \<and> map_of (dict_of old) c = Some e \<longrightarrow>
                  map_of mes' c = Some (e\<lparr>meter := m\<rparr>)
                  \<and> ScheduleUpdateHaState (uid e) \<in> set evs \<and> AsyncUpdate (uid e) \<notin> set ts)"
proof -
  let ?old = "dict_of old"
  let ?kept = "filter (\<lambda>(k, e). k \<in> fst ` set meters) ?old"
  let ?rem = "removal_tasks (stale_codes ?old meters) ?old"
  let ?stR = "st\<lparr>tasks := tasks st @ ?rem\<rparr>"
  from res have r: "upsert_loop meters (?kept, ?stR) = (mes', st')"
    by (simp add: diff_meters_eq)
  let ?ts = "?rem @ map AsyncUpdate [next_uid st ..< next_uid st']"
  from upsert_loop_tasks [of ?stR meters ?kept] r
  have le: "next_uid st \<le> next_uid st'" and ts: "tasks st' = tasks st @ ?ts"
    by simp_all
  from upsert_loop_trace [of meters ?kept ?stR] r
  obtain evs where evs: "trace st' = trace st @ evs" by auto
  have lookup0: "map_of ?kept c = (if c \<in> fst ` set meters then map_of ?old c else None)" for c
    by (rule map_of_filter_keys)
  have A: "map_of mes' c = None \<and> AsyncRemove (uid e) \<in> set ?ts"
    if "map_of ?old c = Some e" "c \<notin> fst ` set meters" for c e
  proof -
    from that(2) upsert_loop_untouched [of c meters ?kept ?stR] r lookup0 [of c]
    have "map_of mes' c = None" by simp
    moreover from that have "c \<in> set (stale_codes ?old meters)"
      by (auto simp: set_stale_codes dest: map_of_SomeD intro: rev_image_eqI)
    then have "AsyncRemove (uid e) \<in> set ?rem" using that(1) by (rule removal_tasks_mem)
    ultimately show ?thesis by simp
  qed
  have B: "\<exists>e. map_of mes' c = Some e \<and> meter e = m \<and> next_uid st \<le> uid e
              \<and> AsyncUpdate (uid e) \<in> set ?ts \<and> map_of (new_meters st') c = Some e"
    if "(c, m) \<in> set meters" "map_of ?old c = None" for c m
  proof -
    from that lookup0 [of c] have "map_of ?kept c = None" by simp
    from upsert_loop_new [OF dm that(1) this, of ?stR] r
    obtain e where e: "map_of mes' c = Some e" "meter e = m" "next_uid st \<le> uid e"
      "uid e < next_uid st'" "map_of (new_meters st') c = Some e"
      by auto
    then have "AsyncUpdate (uid e) \<in> set ?ts" by simp
    with e show ?thesis by blast
  qed
  have C: "map_of mes' c = Some (e\<lparr>meter := m\<rparr>)
             \<and> ScheduleUpdateHaState (uid e) \<in> set evs \<and> AsyncUpdate (uid e) \<notin> set ?ts"
    if "(c, m) \<in> set meters" "map_of ?old c = Some e" for c m e
  proof -
    from that(1) have "c \<in> fst ` set meters" by force
    with that(2) lookup0 [of c] have "map_of ?kept c = Some e" by simp
    from upsert_loop_kept [OF dm that(1) this, of ?stR] r evs
    have 1: "map_of mes' c = Some (e\<lparr>meter := m\<rparr>)"
      and 2: "ScheduleUpdateHaState (uid e) \<in> set evs"
      by auto
    from that(2) have "(c, e) \<in> set ?old" by (rule map_of_SomeD)
    with fresh have "uid e < next_uid st" by auto
    then have "AsyncUpdate (uid e) \<notin> set ?ts" by (auto simp: removal_tasks_only)
    with 1 2 show ?thesis by simp
  qed
  from ts evs A B C show ?thesis by blast
qed



text \<open>
  C1. Let the meter fetch of an account succeed and the allow-list leave the meters
  \<open>meters\<close> to consider. Then the meter block ends with a meter dictionary in which
  every code that was registered but is not among \<open>meters\<close> is gone, a retirement
  task for its entity collected; every code of \<open>meters\<close> that was not registered maps
  to a new entity (an identity not used before) that wraps the fetched meter, with a
  refresh task collected and the entity entered in \<^verbatim>\<open>new_meters\<close>; and every code
  in both maps to the entity it had, changed in its backing meter only, with a forced
  state update scheduled and no refresh task.
\<close>

theorem meters_reconciled:
  assumes "get_meters acc = Inr fetched"
    and "filter_meters cfg code fetched = Inr meters"
    and "distinct (map fst fetched)"
    and "\<forall>(c, e) \<in> set (dict_of (meter_entities account_entity)). uid e < next_uid st"
  shows "\<exists>mes' st' ts evs.
           process_meters cfg code acc (account_entity, st)
             = Inr (account_entity\<lparr>meter_entities := Some mes'\<rparr>, st')
           \<and> tasks st' = tasks st @ ts \<and> trace st' = trace st @ GetMeters code # evs
           \<and> (\<forall>c e. map_of (dict_of (meter_entities account_entity)) c = Some e
                      \<and> c \<notin> fst ` set meters \<longrightarrow>
                  map_of mes' c = None \<and> AsyncRemove (uid e) \<in> set ts)
           \<and> (\<forall>c m. (c, m) \<in> set meters
                      \<and> map_of (dict_of (meter_entities account_entity)) c = None \<longrightarrow>
                  (\<exists>e. map_of mes' c = Some e \<and> meter e = m \<and> next_uid st \<le> uid e
                       \<and> AsyncUpdate (uid e) \<in> set ts \<and> map_of (new_meters st') c = Some e))
           \<and> (\<forall>c m e. (c, m) \<in> set meters
                      \<and> map_of (dict_of (meter_entities account_entity)) c = Some e \<longrightarrow>
                  map_of mes' c = Some (e\<lparr>meter := m\<rparr>)
                  \<and> ScheduleUpdateHaState (uid e) \<in> set evs \<and> AsyncUpdate (uid e) \<notin> set ts)"
proof -
  let ?st1 = "st\<lparr>trace := trace st @ [GetMeters code]\<rparr>"
  obtain mes' st' where d: "diff_meters (meter_entities account_entity) meters ?st1 = (mes', st')"
    by (cases "diff_meters (meter_entities account_entity) meters ?st1")
  from assms(2,3) have dm: "distinct (map fst meters)" by (rule filter_meters_distinct)
  from assms(4) have "\<forall>(c, e) \<in> set (dict_of (meter_entities account_entity)). uid e < next_uid ?st1"
    by simp
  from diff_meters_correct [OF dm this d]
  obtain ts evs where
    "tasks st' = tasks st @ ts" "trace st' = trace st @ GetMeters code # evs"
    "\<forall>c e. map_of (dict_of (meter_entities account_entity)) c = Some e
                      \<and> c \<notin> fst ` set meters \<longrightarrow>
                  map_of mes' c = None \<and> AsyncRemove (uid e) \<in> set ts"
    "\<forall>c m. (c, m) \<in> set meters
                      \<and> map_of (dict_of (meter_entities account_entity)) c = None \<longrightarrow>
                  (\<exists>e. map_of mes' c = Some e \<and> meter e = m \<and> next_uid st \<le> uid e
                       \<and> AsyncUpdate (uid e) \<in> set ts \<and> map_of (new_meters st') c = Some e)"
    "\<forall>c m e. (c, m) \<in> set meters
                      \<and> map_of (dict_of (meter_entities account_entity)) c = Some e \<longrightarrow>
                  map_of mes' c = Some (e\<lparr>meter := m\<rparr>)
                  \<and> ScheduleUpdateHaState (uid e) \<in> set evs \<and> AsyncUpdate (uid e) \<notin> set ts"
    by auto
  moreover from assms(1,2) d
  have "process_meters cfg code acc (account_entity, st)
          = Inr (account_entity\<lparr>meter_entities := Some mes'\<rparr>, st')"
    by (simp add: process_meters_def Let_def)
  ultimately show ?thesis by blast
qed



text \<open>Registry \<open>{A, B}\<close>, fetch \<open>{B, C}\<close>: A is retired, B keeps its identity, C is new.\<close>

theorem meters_reconciled_witness:
  "process_meters sample_cfg ''X'' (snd fetching_BC) (registered_AB, sample_state 3)
     = Inr (registered_AB
              \<lparr>meter_entities :=
                 Some [(''B'', \<lparr>uid = 2, entity_id = Some ''sensor.b'',
                                meter = MeterObj (sample_meter ''B'' [Some 20] [None])\<rparr>),
                       (''C'', \<lparr>uid = 3, entity_id = None,
                                meter = MeterObj (sample_meter ''C'' [Some 30] [None])\<rparr>)]\<rparr>,
            (sample_state 3)
              \<lparr>new_meters := [(''C'', \<lparr>uid = 3, entity_id = None,
                                 meter = MeterObj (sample_meter ''C'' [Some 30] [None])\<rparr>)],
               tasks := [AsyncRemove 1, AsyncUpdate 3],
               trace := [GetMeters ''X'', ScheduleUpdateHaState 2],
               next_uid := 4\<rparr>)"
proof -
  have 1: "get_meters (snd fetching_BC)
             = Inr [(''B'', sample_meter ''B'' [Some 20] [None]),
                    (''C'', sample_meter ''C'' [Some 30] [None])]"
    by (simp add: fetching_BC_def sample_account_def)
  have 2: "filter_meters sample_cfg ''X''
             [(''B'', sample_meter ''B'' [Some 20] [None]),
              (''C'', sample_meter ''C'' [Some 30] [None])]
           = Inr [(''B'', MeterObj (sample_meter ''B'' [Some 20] [None])),
                  (''C'', MeterObj (sample_meter ''C'' [Some 30] [None]))]"
    by (simp add: filter_meters_def use_meter_filter_def sample_cfg_def all_meters_def)
  have 3: "distinct (map fst [(''B'', sample_meter ''B'' [Some 20] [None]),
                              (''C'', sample_meter ''C'' [Some 30] [None])])"
    by simp
  have 4: "\<forall>(c, e) \<in> set (dict_of (meter_entities registered_AB)).
             uid e < next_uid (sample_state 3)"
    by (simp add: registered_AB_def dict_of_def sample_state_def)
  have c: ?thesis
    by (simp add: fetching_BC_def registered_AB_def sample_state_def sample_account_def
          sample_cfg_def process_meters_def filter_meters_def use_meter_filter_def
          all_meters_def diff_meters_def stale_codes_def dict_of_def Let_def)
  from meters_reconciled [OF 1 2 3 4] c show ?thesis by blast
qed



subsection \<open>A second cycle\<close>









lemma remove_loop_frame:
  "created_entities (snd (remove_loop cs (mes, st))) = created_entities st \<and>
   new_accounts (snd (remove_loop cs (mes, st))) = new_accounts st"
  by (induction cs arbitrary: mes st) (auto split: option.splits)































subsection \<open>Where the filters and the lookup do as specified\<close>

text \<open>
  Without an allow-list, or with \<^verbatim>\<open>True\<close> for the account, all fetched meters are
  considered; an account that a list of invoice accounts leaves out is skipped; and an
  identifier that matches no meter is reported as such when every account entity has
  its meter dictionary.
\<close>

lemma all_meters_considered:
  "CONF_ACCOUNTS cfg = None \<or> (\<exists>d. CONF_ACCOUNTS cfg = Some d \<and> (d = [] \<or> map_of d code = Some AllMeters))
     \<Longrightarrow> filter_meters cfg code fetched = Inr (all_meters fetched)"
  by (auto simp: filter_meters_def use_meter_filter_def)

lemma unlisted_account_skipped:
  "CONF_INVOICES cfg = Some (InvoiceAccounts l) \<Longrightarrow> l \<noteq> [] \<Longrightarrow> code \<notin> set l \<Longrightarrow>
     process_invoice cfg code acc r = r"
  by (cases r) (simp add: process_invoice_def skip_invoice_def use_invoice_filter_def)

lemma scan_meters_unmatched:
  "list_all (\<lambda>(k, me). checker me = Inr False) mes \<Longrightarrow> scan_meters checker (map snd mes) = Inr None"
  by (induction mes) auto

lemma scan_accounts_unmatched:
  "list_all (\<lambda>(code, a).
      (case meter_entities a of
         None \<Rightarrow> False
       | Some mes \<Rightarrow> list_all (\<lambda>(k, me). checker me = Inr False) mes)) account_sensors
   \<Longrightarrow> scan_accounts checker (map snd account_sensors) = Inr None"
  by (induction account_sensors) (auto simp: scan_meters_unmatched split: option.splits)

lemma scan_entries_unmatched:
  "list_all (\<lambda>(entry_id, account_sensors).
       list_all (\<lambda>(code, a).
         (case meter_entities a of
            None \<Rightarrow> False
          | Some mes \<Rightarrow> list_all (\<lambda>(k, me). checker me = Inr False) mes))
         account_sensors) es
   \<Longrightarrow> scan_entries checker es = Inr None"
  by (induction es) (auto simp: scan_accounts_unmatched)

lemma unmatched_meter_code_reported:
  assumes "ATTR_ENTITY_ID cd = None" "ATTR_METER_CODE cd = Some c"
    and "unmatched (check_meter_code c) h"
  shows "async_push_indications h cd = Inr [LogError (not_found_message ''meter_code'')]"
    and "async_calculate_indications h cd = Inr [LogError (not_found_message ''meter_code'')]"
  using assms scan_entries_unmatched [of "check_meter_code c" "DATA_ENTITIES h"]
  by (simp_all add: unmatched_def async_push_indications_def async_calculate_indications_def
        find_meter_entity_def)

lemma unmatched_entity_id_reported:
  assumes "ATTR_ENTITY_ID cd = Some eid" "unmatched (check_entity_id eid) h"
  shows "async_push_indications h cd = Inr [LogError (not_found_message ''entity_id'')]"
    and "async_calculate_indications h cd = Inr [LogError (not_found_message ''entity_id'')]"
  using assms scan_entries_unmatched [of "check_entity_id eid" "DATA_ENTITIES h"]
  by (simp_all add: unmatched_def async_push_indications_def async_calculate_indications_def
        find_meter_entity_def)

text \<open>
  An incremental push that succeeds: the provider call, the result event, the
  notification with the caller's override and the refresh of the entry. An override that
  names a field the push event does not have ends the call in \<^verbatim>\<open>KeyError\<close>.
\<close>

lemma push_with_notification:
  "async_push_indications metered_hass
       ((sample_call (IndList [5]) True)
          \<lparr>ATTR_METER_CODE := Some ''12345'',
           ATTR_NOTIFICATION := NotifyPayload [(''message'', [Text ''Sent '', Field ''indications''])]\<rparr>)
     = Inr [SaveIndications ''12345'' (IndTuple [105]) False,
            FirePushResult (Some ''sensor.m'') ''12345'' (IndTuple [105]) ''accepted'',
            CreateNotification ''12345'' [(''message'', [Text ''Sent '', Field ''indications''])],
            IssueAccountUpdate ''entry'']
   \<and> async_push_indications metered_hass
       ((sample_call (IndList [5]) True)
          \<lparr>ATTR_METER_CODE := Some ''12345'',
           ATTR_NOTIFICATION := NotifyPayload [(''message'', [Text ''For '', Field ''period''])]\<rparr>)
     = Inl KeyError"
  by (simp add: metered_hass_def sample_defs metered_account_def async_push_indications_def
        find_meter_entity_def check_meter_code_def get_real_indications_def zip3_def
        s_or_l_or_0_def py_or_def truthy_def notify_def format_error_def push_event_fields_def
        Let_def)

subsection \<open>Further steps of the cycle and of the services\<close>

text \<open>
  A session that is open is left alone while its login is younger than the timeout and
  is closed and opened again once it is not.
\<close>

lemma session_refreshed:
  assumes "is_logged_in api" "login api = None" "logout api = None"
  shows "authenticate api cfg utcnow
           = (True, if logged_in_at api + CONF_LOGIN_TIMEOUT cfg \<le> utcnow
                    then [ApiLogout, ApiLogin] else [])"
  using assms by (simp add: authenticate_def)

text \<open>
  An allow-list that is configured without the account ends the meter block in
  \<^verbatim>\<open>KeyError\<close> (line 143). A listed code of two characters is dropped, since the
  comprehension looks for its first character in the list.
\<close>

lemma unlisted_account_raises:
  "CONF_ACCOUNTS cfg = Some d \<Longrightarrow> d \<noteq> [] \<Longrightarrow> map_of d code = None \<Longrightarrow>
     filter_meters cfg code fetched = Inl KeyError"
  by (simp add: filter_meters_def use_meter_filter_def)

lemma listed_short_code_dropped:
  "filter_meters (sample_cfg\<lparr>CONF_ACCOUNTS := Some [(''Y'', MeterCodes [''ab''])]\<rparr>) ''Y''
       [(''ab'', sample_meter ''ab'' [Some 100] [None])] = Inr []"
  by (simp add: filter_meters_def use_meter_filter_def sample_cfg_def)

text \<open>
  A last invoice with another id than the one held replaces it in the same invoice
  entity, and the state update of the account entity is scheduled.
\<close>

lemma changed_invoice_replaced:
  assumes "\<not> skip_invoice cfg code" "get_last_invoice acc = Inr (Some latest)"
    and "invoice_entity ent = Some ie" "invoice_id (invoice ie) \<noteq> invoice_id latest"
  shows "process_invoice cfg code acc (ent, st)
           = (ent\<lparr>invoice_entity := Some (ie\<lparr>invoice := latest\<rparr>)\<rparr>,
              st\<lparr>trace := trace st @ [GetLastInvoice code, ScheduleUpdateHaState (uid ent)]\<rparr>)"
  using assms by (simp add: process_invoice_def Let_def)

text \<open>The services are registered once.\<close>

lemma services_registered_once:
  "SERVICE_PUSH_INDICATIONS \<in> set (services (async_register_services h))
   \<and> async_register_services (async_register_services h) = async_register_services h"
  by (simp add: async_register_services_def)

text \<open>
  The two checkers on a meter entity backed by a string: the lookup by meter code raises
  unless the string is empty, the lookup by entity id does not read the code.
\<close>

lemma string_backed_checkers:
  assumes "meter me = StrObj s"
  shows "check_meter_code c me = (if s = [] then Inr False else Inl AttributeError)"
    and "check_entity_id eid me = Inr (s \<noteq> [] \<and> entity_id me = Some eid)"
  using assms by (simp_all add: check_meter_code_def check_entity_id_def)

end
